theory Spec2Isabelle
  imports Complex_Main "HOL-Library.Monad_Syntax"
begin

section \<open>Numbers of the source language\<close>

text \<open>
  The DSP code computes on JavaScript numbers. A number is modelled as a real or one of
  the three special values of IEEE arithmetic, so that a division by zero, the logarithm
  of zero and the square root of a negative number are values of the model as they are
  values of the program. An operation on finite numbers gives the exact result: the
  rounding of every single operation to double precision, the overflow of a double and
  the sign of zero are not modelled; a zero divisor counts as positive zero. What is
  proved below about values is therefore either the shape of a computation, written with
  the operations of this section, or is about inputs on which no operation rounds.

  The store of a computed number into a \<^verbatim>\<open>Float32Array\<close> is the function
  \<open>fround\<close> below, which rounds to single precision. It is applied where the window
  (windowing.ts), the feature extractor (mfcc.ts) and the reducer (pca.ts) store into such
  an array. The transform engine, the spectrogram builder and the filterbank are modelled
  without it: what is proved of them is about lengths, counts, errors, messages and the
  order of the operations.
\<close>

datatype jsnum = Num real | PInf | NInf | NaN

fun jneg :: "jsnum \<Rightarrow> jsnum" where
  "jneg (Num a) = Num (- a)"
| "jneg PInf = NInf"
| "jneg NInf = PInf"
| "jneg NaN = NaN"

fun jadd :: "jsnum \<Rightarrow> jsnum \<Rightarrow> jsnum" where
  "jadd (Num a) (Num b) = Num (a + b)"
| "jadd NaN _ = NaN"
| "jadd _ NaN = NaN"
| "jadd PInf NInf = NaN"
| "jadd NInf PInf = NaN"
| "jadd PInf _ = PInf"
| "jadd _ PInf = PInf"
| "jadd NInf _ = NInf"
| "jadd _ NInf = NInf"

definition jsub :: "jsnum \<Rightarrow> jsnum \<Rightarrow> jsnum" where
  "jsub a b = jadd a (jneg b)"

text \<open>The infinity of the sign of a nonzero real.\<close>

definition jinf :: "real \<Rightarrow> jsnum" where
  "jinf s = (if s = 0 then NaN else if 0 < s then PInf else NInf)"

fun jmul :: "jsnum \<Rightarrow> jsnum \<Rightarrow> jsnum" where
  "jmul (Num a) (Num b) = Num (a * b)"
| "jmul NaN _ = NaN"
| "jmul _ NaN = NaN"
| "jmul (Num a) PInf = jinf a"
| "jmul (Num a) NInf = jinf (- a)"
| "jmul PInf (Num b) = jinf b"
| "jmul NInf (Num b) = jinf (- b)"
| "jmul PInf PInf = PInf"
| "jmul PInf NInf = NInf"
| "jmul NInf PInf = NInf"
| "jmul NInf NInf = PInf"

fun jdiv :: "jsnum \<Rightarrow> jsnum \<Rightarrow> jsnum" where
  "jdiv (Num a) (Num b) = (if b = 0 then jinf a else Num (a / b))"
| "jdiv NaN _ = NaN"
| "jdiv _ NaN = NaN"
| "jdiv (Num a) PInf = Num 0"
| "jdiv (Num a) NInf = Num 0"
| "jdiv PInf (Num b) = (if 0 \<le> b then PInf else NInf)"
| "jdiv NInf (Num b) = (if 0 \<le> b then NInf else PInf)"
| "jdiv PInf PInf = NaN"
| "jdiv PInf NInf = NaN"
| "jdiv NInf PInf = NaN"
| "jdiv NInf NInf = NaN"

fun jsqrt :: "jsnum \<Rightarrow> jsnum" where
  "jsqrt (Num a) = (if a < 0 then NaN else Num (sqrt a))"
| "jsqrt PInf = PInf"
| "jsqrt NInf = NaN"
| "jsqrt NaN = NaN"

fun jcos :: "jsnum \<Rightarrow> jsnum" where
  "jcos (Num a) = Num (cos a)"
| "jcos _ = NaN"

fun jsin :: "jsnum \<Rightarrow> jsnum" where
  "jsin (Num a) = Num (sin a)"
| "jsin _ = NaN"

fun jlog10 :: "jsnum \<Rightarrow> jsnum" where
  "jlog10 (Num a) = (if a < 0 then NaN else if a = 0 then NInf else Num (log 10 a))"
| "jlog10 PInf = PInf"
| "jlog10 NInf = NaN"
| "jlog10 NaN = NaN"

text \<open>\<^verbatim>\<open>Math.pow(10, y)\<close>.\<close>

fun jpow10 :: "jsnum \<Rightarrow> jsnum" where
  "jpow10 (Num a) = Num (10 powr a)"
| "jpow10 PInf = PInf"
| "jpow10 NInf = Num 0"
| "jpow10 NaN = NaN"

fun jfloor :: "jsnum \<Rightarrow> jsnum" where
  "jfloor (Num a) = Num (of_int \<lfloor>a\<rfloor>)"
| "jfloor x = x"

text \<open>The comparisons \<^verbatim>\<open><\<close> and \<^verbatim>\<open><=\<close>: false as soon as one side is NaN.\<close>

fun jlt :: "jsnum \<Rightarrow> jsnum \<Rightarrow> bool" where
  "jlt (Num a) (Num b) = (a < b)"
| "jlt NaN _ = False"
| "jlt _ NaN = False"
| "jlt _ NInf = False"
| "jlt PInf _ = False"
| "jlt NInf _ = True"
| "jlt _ PInf = True"

fun jle :: "jsnum \<Rightarrow> jsnum \<Rightarrow> bool" where
  "jle (Num a) (Num b) = (a \<le> b)"
| "jle NaN _ = False"
| "jle _ NaN = False"
| "jle NInf _ = True"
| "jle _ PInf = True"
| "jle _ NInf = False"
| "jle PInf _ = False"

definition jgt :: "jsnum \<Rightarrow> jsnum \<Rightarrow> bool" where
  "jgt a b = jlt b a"

definition jge :: "jsnum \<Rightarrow> jsnum \<Rightarrow> bool" where
  "jge a b = jle b a"

text \<open>The equality \<^verbatim>\<open>==\<close> on numbers: NaN is equal to nothing, itself included.\<close>

definition jeq :: "jsnum \<Rightarrow> jsnum \<Rightarrow> bool" where
  "jeq a b = (a \<noteq> NaN \<and> a = b)"

text \<open>\<^verbatim>\<open>Math.min\<close> of two numbers.\<close>

definition jmin :: "jsnum \<Rightarrow> jsnum \<Rightarrow> jsnum" where
  "jmin a b = (if a = NaN \<or> b = NaN then NaN else if jle a b then a else b)"

text \<open>
  Reading a numeric array at an index: an index out of range reads \<^verbatim>\<open>undefined\<close>,
  which is NaN in every arithmetic use the code makes of it.
\<close>

definition elem :: "jsnum list \<Rightarrow> nat \<Rightarrow> jsnum" where
  "elem xs i = (if i < length xs then xs ! i else NaN)"

text \<open>A number is finite when it is neither NaN nor an infinity.\<close>

fun finite_num :: "jsnum \<Rightarrow> bool" where
  "finite_num (Num a) = True"
| "finite_num _ = False"

text \<open>
  The store into a \<^verbatim>\<open>Float32Array\<close>: the nearest single-precision number, a
  tie going to the even significand. Around a number of binary exponent \<open>e\<close>, which is
  at least \<open>-126\<close>, the single-precision numbers are the multiples of \<open>2 ^ (e - 23)\<close>;
  a result of magnitude \<open>2 ^ 128\<close> is an infinity.
\<close>

definition round_even :: "real \<Rightarrow> int" where
  "round_even y =
     (let f = \<lfloor>y\<rfloor>; d = y - of_int f in
      if d < 1 / 2 then f else if 1 / 2 < d then f + 1 else if even f then f else f + 1)"

definition f32_ulp :: "real \<Rightarrow> real" where
  "f32_ulp x = 2 powr of_int (max (- 126) \<lfloor>log 2 \<bar>x\<bar>\<rfloor> - 23)"

fun fround :: "jsnum \<Rightarrow> jsnum" where
  "fround (Num x) =
     (if x = 0 then Num 0
      else let r = of_int (round_even (x / f32_ulp x)) * f32_ulp x in
           if 2 ^ 128 \<le> \<bar>r\<bar> then jinf x else Num r)"
| "fround PInf = PInf"
| "fround NInf = NInf"
| "fround NaN = NaN"

text \<open>Errors thrown by the code, with the data their messages are built from.\<close>

datatype error =
    WindowLengthError
  | SpectrumSizeMismatch nat nat
  | RangeError
  | TypeError

section \<open>Windowing (windowing.ts)\<close>

definition hannWindow :: "nat \<Rightarrow> jsnum list" where
  "hannWindow sz =
     (let n = Num (of_int (int sz - 1)) in
      map (\<lambda>i. let x = jdiv (Num (of_nat i)) n in
                fround (jmul (Num 0.5) (jsub (Num 1) (jcos (jmul (Num (2 * pi)) x)))))
          [0..<sz])"

definition applyWindow :: "jsnum list \<Rightarrow> jsnum list \<Rightarrow> error + jsnum list" where
  "applyWindow samples window =
     (if length samples \<noteq> length window then Inl WindowLengthError
      else Inr (map (\<lambda>i. jmul (samples ! i) (window ! i)) [0..<length samples]))"

section \<open>Transform engine (fft.ts)\<close>

record FFTResult =
  real_part :: "jsnum list"
  imag_part :: "jsnum list"

text \<open>
  \<^verbatim>\<open>Math.pow(2, Math.ceil(Math.log2(n)))\<close> for a size \<open>n\<close>: the logarithm of zero is
  minus infinity, and two to that power is zero.
\<close>

definition nextPow2 :: "nat \<Rightarrow> nat" where
  "nextPow2 n = (if n = 0 then 0 else 2 ^ nat \<lceil>log 2 (real n)\<rceil>)"

text \<open>
  The combination step of the transform for an input of length \<open>N\<close>. The loop runs over
  \<open>k < N / 2\<close>; entry \<open>k\<close> and entry \<open>k + N / 2\<close> are written, the latter only when
  \<open>N\<close> is even (a fractional index is no element of a typed array).
\<close>

definition twiddle_re :: "nat \<Rightarrow> FFTResult \<Rightarrow> nat \<Rightarrow> jsnum" where
  "twiddle_re N oddFFT k =
     (let angle = jdiv (Num (- 2 * pi * of_nat k)) (Num (of_nat N)) in
      jsub (jmul (jcos angle) (elem (real_part oddFFT) k))
           (jmul (jsin angle) (elem (imag_part oddFFT) k)))"

definition twiddle_im :: "nat \<Rightarrow> FFTResult \<Rightarrow> nat \<Rightarrow> jsnum" where
  "twiddle_im N oddFFT k =
     (let angle = jdiv (Num (- 2 * pi * of_nat k)) (Num (of_nat N)) in
      jadd (jmul (jsin angle) (elem (real_part oddFFT) k))
           (jmul (jcos angle) (elem (imag_part oddFFT) k)))"

definition combine :: "nat \<Rightarrow> FFTResult \<Rightarrow> FFTResult \<Rightarrow> FFTResult" where
  "combine N evenFFT oddFFT =
     (let h = N div 2; iters = (N + 1) div 2 in
      \<lparr> real_part = map (\<lambda>j.
           if j < iters then jadd (elem (real_part evenFFT) j) (twiddle_re N oddFFT j)
           else if even N then jsub (elem (real_part evenFFT) (j - h)) (twiddle_re N oddFFT (j - h))
           else Num 0) [0..<N],
        imag_part = map (\<lambda>j.
           if j < iters then jadd (elem (imag_part evenFFT) j) (twiddle_im N oddFFT j)
           else if even N then jsub (elem (imag_part evenFFT) (j - h)) (twiddle_im N oddFFT (j - h))
           else Num 0) [0..<N] \<rparr>)"

text \<open>
  The recursion of \<^verbatim>\<open>fft\<close>. It has a base case for length one only: on the empty
  array both halves are empty again and the recursion never returns, which is the value
  \<open>None\<close>.
\<close>

partial_function (option) fft :: "jsnum list \<Rightarrow> FFTResult option" where
  "fft x =
     (if length x = 1 then Some \<lparr> real_part = [x ! 0], imag_part = [Num 0] \<rparr>
      else
        Option.bind (fft (map (\<lambda>i. x ! (2 * i)) [0..<length x div 2])) (\<lambda>evenFFT.
        Option.bind (fft (map (\<lambda>i. x ! (2 * i + 1)) [0..<length x div 2])) (\<lambda>oddFFT.
        Some (combine (length x) evenFFT oddFFT))))"

definition computeFFT :: "jsnum list \<Rightarrow> nat \<Rightarrow> FFTResult option" where
  "computeFFT samples fftSize =
     (let actualSize = nextPow2 fftSize in
      fft (map (\<lambda>i. if i < min (length samples) actualSize then samples ! i else Num 0)
               [0..<actualSize]))"

definition magnitudeSpectrum :: "FFTResult \<Rightarrow> jsnum list" where
  "magnitudeSpectrum fftResult =
     map (\<lambda>i. jsqrt (jadd (jmul (elem (real_part fftResult) i) (elem (real_part fftResult) i))
                           (jmul (elem (imag_part fftResult) i) (elem (imag_part fftResult) i))))
         [0..<length (real_part fftResult)]"


section \<open>Configuration (config.ts)\<close>

definition DSP_CONFIG_windowSize :: nat where "DSP_CONFIG_windowSize = 2048"
definition DSP_CONFIG_hopSize :: nat where "DSP_CONFIG_hopSize = 512"
definition DSP_CONFIG_melBins :: nat where "DSP_CONFIG_melBins = 128"
definition DSP_CONFIG_mfccCount :: nat where "DSP_CONFIG_mfccCount = 40"
definition DSP_CONFIG_fMin :: real where "DSP_CONFIG_fMin = 500"
definition DSP_CONFIG_fMax :: real where "DSP_CONFIG_fMax = 12000"
definition DSP_CONFIG_preEmphasisCoeff :: real where "DSP_CONFIG_preEmphasisCoeff = 97 / 100"
definition DSP_CONFIG_maxFrames :: nat where "DSP_CONFIG_maxFrames = 2000"

section \<open>Spectrogram builder (spectrogram.ts)\<close>

text \<open>
  Sizes and counts (window size, hop size, frame cap, transform size) are natural numbers;
  the sample rate is a finite number. \<open>SpectrogramData\<close> is the part of the result that
  the feature extractor reads.
\<close>

record SpectrogramData =
  sg_data :: "jsnum list list"
  sg_sampleRate :: real
  sg_hopSize :: nat
  sg_windowSize :: nat

record SpectrogramResult = SpectrogramData +
  sg_nFrames :: nat
  sg_nBins :: nat

text \<open>The pre-emphasis filter; on the empty array the store at index 0 is dropped.\<close>

definition preEmphasis :: "jsnum list \<Rightarrow> jsnum list" where
  "preEmphasis samples =
     map (\<lambda>i. if i = 0 then samples ! 0
               else jsub (samples ! i) (jmul (Num DSP_CONFIG_preEmphasisCoeff) (samples ! (i - 1))))
         [0..<length samples]"

text \<open>
  The loop bound \<^verbatim>\<open>Math.min(maxFrames, Math.floor((len - windowSize) / hopSize) + 1)\<close>,
  a number: with a zero hop size it is the frame cap, NaN or minus infinity.
\<close>

definition nFrames_bound :: "nat \<Rightarrow> nat \<Rightarrow> nat \<Rightarrow> nat \<Rightarrow> jsnum" where
  "nFrames_bound len windowSize hopSize maxFrames =
     jmin (Num (of_nat maxFrames))
          (jadd (jfloor (jdiv (Num (of_int (int len - int windowSize))) (Num (of_nat hopSize))))
                (Num 1))"

text \<open>The body of the frame loop for the frame that starts at \<open>start\<close>.\<close>

definition spectrogram_frame ::
  "jsnum list \<Rightarrow> jsnum list \<Rightarrow> nat \<Rightarrow> nat \<Rightarrow> nat \<Rightarrow> (error + jsnum list) option" where
  "spectrogram_frame preEmphasized window windowSize fftSize start =
     (let frame = take windowSize (drop start preEmphasized) in
      case applyWindow frame window of
        Inl e \<Rightarrow> Some (Inl e)
      | Inr windowed \<Rightarrow>
          if fftSize < length windowed then Some (Inl RangeError)
          else
            let padded = windowed @ replicate (fftSize - length windowed) (Num 0) in
            case computeFFT padded fftSize of
              None \<Rightarrow> None
            | Some fftResult \<Rightarrow>
                let magnitude = magnitudeSpectrum fftResult;
                    nBins = fftSize div 2 + 1
                in Some (Inr (take nBins magnitude)))"

function spectrogram_loop ::
  "jsnum list \<Rightarrow> jsnum list \<Rightarrow> nat \<Rightarrow> nat \<Rightarrow> nat \<Rightarrow> nat \<Rightarrow> nat \<Rightarrow> jsnum list list
   \<Rightarrow> (error + jsnum list list) option" where
  "spectrogram_loop preEmphasized window windowSize hopSize maxFrames fftSize frameIdx spectrogram =
     (if jlt (Num (of_nat frameIdx))
             (nFrames_bound (length preEmphasized) windowSize hopSize maxFrames)
      then
        if length preEmphasized < frameIdx * hopSize + windowSize then Some (Inr spectrogram)
        else
          (case spectrogram_frame preEmphasized window windowSize fftSize (frameIdx * hopSize) of
             None \<Rightarrow> None
           | Some (Inl e) \<Rightarrow> Some (Inl e)
           | Some (Inr frameMagnitude) \<Rightarrow>
               spectrogram_loop preEmphasized window windowSize hopSize maxFrames fftSize
                 (Suc frameIdx) (spectrogram @ [frameMagnitude]))
      else Some (Inr spectrogram))"
  by pat_completeness auto
termination
proof (relation "measure (\<lambda>(p, w, ws, h, maxFrames, f, frameIdx, s). maxFrames - frameIdx)")
  fix preEmphasized :: "jsnum list" and windowSize hopSize maxFrames frameIdx :: nat
  assume "jlt (Num (of_nat frameIdx))
            (nFrames_bound (length preEmphasized) windowSize hopSize maxFrames)"
  then have "frameIdx < maxFrames"
    by (cases "jadd (jfloor (jdiv (Num (of_int (int (length preEmphasized) - int windowSize)))
                                  (Num (of_nat hopSize)))) (Num 1)")
       (auto simp: nFrames_bound_def jmin_def split: if_splits)
  then show "\<And>window fftSize spectrogram x2.
      ((preEmphasized, window, windowSize, hopSize, maxFrames, fftSize, Suc frameIdx,
        spectrogram @ [x2]),
       (preEmphasized, window, windowSize, hopSize, maxFrames, fftSize, frameIdx, spectrogram))
      \<in> measure (\<lambda>(p, w, ws, h, maxFrames, f, frameIdx, s). maxFrames - frameIdx)"
    by simp
qed simp

definition computeSpectrogram ::
  "jsnum list \<Rightarrow> real \<Rightarrow> nat \<Rightarrow> nat \<Rightarrow> nat \<Rightarrow> (error + SpectrogramResult) option" where
  "computeSpectrogram samples sampleRate windowSize hopSize maxFrames =
     (let preEmphasized = preEmphasis samples;
          window = hannWindow windowSize;
          fftSize = nextPow2 windowSize
      in case spectrogram_loop preEmphasized window windowSize hopSize maxFrames fftSize 0 [] of
           None \<Rightarrow> None
         | Some (Inl e) \<Rightarrow> Some (Inl e)
         | Some (Inr spectrogram) \<Rightarrow>
             Some (Inr \<lparr> sg_data = spectrogram, sg_sampleRate = sampleRate,
                         sg_hopSize = hopSize, sg_windowSize = windowSize,
                         sg_nFrames = length spectrogram,
                         sg_nBins = (case spectrogram of [] \<Rightarrow> 0 | f # _ \<Rightarrow> length f) \<rparr>))"


section \<open>Mel filterbank (melFilterbank.ts)\<close>

record MelFilterbank =
  mf_filters :: "jsnum list list"
  mf_sampleRate :: real
  mf_fftSize :: nat
  mf_melBins :: nat
  mf_fMin :: real
  mf_fMax :: jsnum

definition hzToMel :: "jsnum \<Rightarrow> jsnum" where
  "hzToMel hz = jmul (Num 2595) (jlog10 (jadd (Num 1) (jdiv hz (Num 700))))"

definition melToHz :: "jsnum \<Rightarrow> jsnum" where
  "melToHz mel = jmul (Num 700) (jsub (jpow10 (jdiv mel (Num 2595))) (Num 1))"

text \<open>One weight of a triangular filter; a weight that no branch writes stays zero.\<close>

definition filter_weight :: "jsnum \<Rightarrow> jsnum \<Rightarrow> jsnum \<Rightarrow> jsnum \<Rightarrow> jsnum" where
  "filter_weight leftFreq centerFreq rightFreq freq =
     (if jge freq leftFreq \<and> jle freq centerFreq
        then jdiv (jsub freq leftFreq) (jsub centerFreq leftFreq)
      else if jgt freq centerFreq \<and> jle freq rightFreq
        then jdiv (jsub rightFreq freq) (jsub rightFreq centerFreq)
      else Num 0)"

definition createFilters :: "real \<Rightarrow> nat \<Rightarrow> nat \<Rightarrow> real \<Rightarrow> jsnum \<Rightarrow> jsnum list list" where
  "createFilters sampleRate fftSize melBins fMin fMax =
     (let freqResolution = jdiv (Num sampleRate) (Num (of_nat fftSize));
          nFreqBins = fftSize div 2 + 1;
          melMin = hzToMel (Num fMin);
          melMax = hzToMel fMax;
          melSpacing = jdiv (jsub melMax melMin) (Num (of_nat (melBins + 1)));
          centerFreqs = map (\<lambda>i. melToHz (jadd melMin (jmul melSpacing (Num (of_nat i)))))
                            [0..<melBins + 2]
      in map (\<lambda>melIdx.
                map (\<lambda>freqIdx.
                       filter_weight (centerFreqs ! melIdx) (centerFreqs ! (melIdx + 1))
                         (centerFreqs ! (melIdx + 2)) (jmul (Num (of_nat freqIdx)) freqResolution))
                    [0..<nFreqBins])
             [0..<melBins])"

text \<open>The constructor; \<open>MelFilterbank_default\<close> is the call that leaves the defaults in place.\<close>

definition MelFilterbank_new :: "real \<Rightarrow> nat \<Rightarrow> nat \<Rightarrow> real \<Rightarrow> real \<Rightarrow> MelFilterbank" where
  "MelFilterbank_new sampleRate fftSize melBins fMin fMax =
     (let fMax' = jmin (Num fMax) (jdiv (Num sampleRate) (Num 2)) in
      \<lparr> mf_filters = createFilters sampleRate fftSize melBins fMin fMax',
        mf_sampleRate = sampleRate, mf_fftSize = fftSize, mf_melBins = melBins,
        mf_fMin = fMin, mf_fMax = fMax' \<rparr>)"

definition MelFilterbank_default :: "real \<Rightarrow> nat \<Rightarrow> MelFilterbank" where
  "MelFilterbank_default sampleRate fftSize =
     MelFilterbank_new sampleRate fftSize DSP_CONFIG_melBins DSP_CONFIG_fMin DSP_CONFIG_fMax"

text \<open>
  \<^verbatim>\<open>apply\<close> is a method of the filterbank object: the model returns the object as
  the call leaves it, next to the outcome. Reading the length of a filter that is not
  there is a \<^verbatim>\<open>TypeError\<close>.
\<close>

definition mel_sum :: "jsnum list \<Rightarrow> jsnum list \<Rightarrow> jsnum" where
  "mel_sum weights magnitudeArray =
     foldl (\<lambda>sum freqIdx. jadd sum (jmul (weights ! freqIdx) (magnitudeArray ! freqIdx)))
           (Num 0) [0..<min (length weights) (length magnitudeArray)]"

definition MelFilterbank_apply ::
  "MelFilterbank \<Rightarrow> jsnum list \<Rightarrow> MelFilterbank \<times> (error + jsnum list)" where
  "MelFilterbank_apply this magnitudeArray =
     (let expectedBins = mf_fftSize this div 2 + 1 in
      if length magnitudeArray \<noteq> expectedBins
        then (this, Inl (SpectrumSizeMismatch expectedBins (length magnitudeArray)))
      else if length (mf_filters this) < mf_melBins this then (this, Inl TypeError)
      else (this, Inr (map (\<lambda>melIdx. mel_sum (mf_filters this ! melIdx) magnitudeArray)
                           [0..<mf_melBins this])))"

section \<open>Feature extractor (mfcc.ts)\<close>

definition dct2_sum :: "jsnum list \<Rightarrow> nat \<Rightarrow> jsnum" where
  "dct2_sum input k =
     (let n = length input in
      foldl (\<lambda>sum i.
               let angle = jdiv (jmul (jmul (Num pi) (Num (of_nat k)))
                                      (jadd (Num (of_nat i)) (Num 0.5)))
                                (Num (of_nat n))
               in jadd sum (jmul (input ! i) (jcos angle)))
            (Num 0) [0..<n])"

definition dct2 :: "jsnum list \<Rightarrow> nat \<Rightarrow> jsnum list" where
  "dct2 input count =
     (let n = length input in
      map (\<lambda>k.
             let sum = dct2_sum input k
             in if k = 0 then fround (jdiv sum (jsqrt (Num (of_nat n))))
                else fround (jmul sum (jsqrt (jdiv (Num 2) (Num (of_nat n))))))
          [0..<count])"

definition mfcc_of_mel :: "jsnum list \<Rightarrow> nat \<Rightarrow> jsnum list" where
  "mfcc_of_mel melSpectrum mfccCount =
     (let powerSpectrum = map (\<lambda>i. fround (jmul (melSpectrum ! i) (melSpectrum ! i)))
                              [0..<length melSpectrum];
          epsilon = Num (1 / 10 ^ 10);
          logMel = map (\<lambda>i. fround (jlog10 (jadd (powerSpectrum ! i) epsilon)))
                       [0..<length powerSpectrum]
      in dct2 logMel mfccCount)"

fun computeMFCC_frames ::
  "MelFilterbank \<Rightarrow> nat \<Rightarrow> jsnum list list \<Rightarrow> jsnum list list
   \<Rightarrow> MelFilterbank \<times> (error + jsnum list list)" where
  "computeMFCC_frames melFilterbank mfccCount [] mfccFrames = (melFilterbank, Inr mfccFrames)"
| "computeMFCC_frames melFilterbank mfccCount (magnitudeFrame # rest) mfccFrames =
     (case MelFilterbank_apply melFilterbank magnitudeFrame of
        (melFilterbank', Inl e) \<Rightarrow> (melFilterbank', Inl e)
      | (melFilterbank', Inr melSpectrum) \<Rightarrow>
          computeMFCC_frames melFilterbank' mfccCount rest
            (mfccFrames @ [mfcc_of_mel melSpectrum mfccCount]))"

definition computeMFCC ::
  "'a SpectrogramData_scheme \<Rightarrow> MelFilterbank \<Rightarrow> nat
   \<Rightarrow> MelFilterbank \<times> (error + jsnum list list)" where
  "computeMFCC spectrogram melFilterbank mfccCount =
     computeMFCC_frames melFilterbank mfccCount (sg_data spectrogram) []"


section \<open>Dimensionality reducer (pca.ts)\<close>

text \<open>
  The feature matrix is flattened row by row into one array and read at \<open>t * F + f\<close>,
  where \<open>F\<close> is the length of the first frame; with frames of unequal length such a read
  can fall behind the end of the array. The means, the covariance matrix and the vectors
  of the power iteration are \<^verbatim>\<open>Float32Array\<close>s: every assignment to one of their
  elements, the compound assignments \<^verbatim>\<open>+=\<close>, \<^verbatim>\<open>-=\<close> and \<^verbatim>\<open>/=\<close> included,
  stores in single precision. The matrix, the components and the projected points are
  arrays of numbers.
\<close>

definition pca_means :: "jsnum list \<Rightarrow> nat \<Rightarrow> nat \<Rightarrow> jsnum list" where
  "pca_means matrix timeSteps featureCount =
     map (\<lambda>f. fround (jdiv (foldl (\<lambda>m t. fround (jadd m (elem matrix (t * featureCount + f))))
                                  (Num 0) [0..<timeSteps])
                           (Num (of_nat timeSteps))))
         [0..<featureCount]"

definition pca_center :: "jsnum list \<Rightarrow> jsnum list \<Rightarrow> nat \<Rightarrow> nat \<Rightarrow> jsnum list" where
  "pca_center matrix means timeSteps featureCount =
     map (\<lambda>idx. jsub (elem matrix idx) (means ! (idx mod featureCount)))
         [0..<timeSteps * featureCount]"

definition pca_scale :: "nat \<Rightarrow> jsnum" where
  "pca_scale timeSteps = jdiv (Num 1) (Num (of_int (max 1 (int timeSteps - 1))))"

definition pca_covariance :: "jsnum list \<Rightarrow> nat \<Rightarrow> nat \<Rightarrow> jsnum list" where
  "pca_covariance matrix timeSteps featureCount =
     map (\<lambda>idx. let i = idx div featureCount; j = idx mod featureCount in
                 fround (jmul (foldl (\<lambda>sum t. jadd sum (jmul (matrix ! (t * featureCount + i))
                                                              (matrix ! (t * featureCount + j))))
                                     (Num 0) [0..<timeSteps])
                              (pca_scale timeSteps)))
         [0..<featureCount * featureCount]"

definition dot_product :: "nat \<Rightarrow> jsnum list \<Rightarrow> jsnum list \<Rightarrow> jsnum" where
  "dot_product n vec prev =
     foldl (\<lambda>dot i. jadd dot (jmul (vec ! i) (prev ! i))) (Num 0) [0..<n]"

definition orthogonalize :: "jsnum list list \<Rightarrow> nat \<Rightarrow> nat \<Rightarrow> jsnum list \<Rightarrow> jsnum list" where
  "orthogonalize components pcIdx n vec =
     foldl (\<lambda>vec prevIdx.
              let dot = dot_product n vec (components ! prevIdx) in
              map (\<lambda>i. fround (jsub (vec ! i) (jmul dot (components ! prevIdx ! i)))) [0..<n])
           vec [0..<pcIdx]"

definition power_round ::
  "jsnum list \<Rightarrow> nat \<Rightarrow> jsnum list list \<Rightarrow> nat \<Rightarrow> jsnum list \<Rightarrow> jsnum list" where
  "power_round covariance n components pcIdx vec =
     (let newVec = map (\<lambda>i. foldl (\<lambda>acc j. fround (jadd acc (jmul (covariance ! (i * n + j))
                                                                      (vec ! j))))
                                   (Num 0) [0..<n])
                       [0..<n];
          norm = jsqrt (foldl (\<lambda>norm i. jadd norm (jmul (newVec ! i) (newVec ! i)))
                              (Num 0) [0..<n]);
          newVec' = (if jgt norm (Num (1 / 10 ^ 6))
                     then map (\<lambda>i. fround (jdiv (newVec ! i) norm)) [0..<n] else newVec)
      in orthogonalize components pcIdx n newVec')"

definition eigenvector :: "jsnum list \<Rightarrow> nat \<Rightarrow> jsnum list list \<Rightarrow> nat \<Rightarrow> jsnum list" where
  "eigenvector covariance n components pcIdx =
     (power_round covariance n components pcIdx ^^ 10)
       (orthogonalize components pcIdx n ((replicate n (Num 0))[pcIdx mod n := Num 1]))"

definition computeTopEigenvectors :: "jsnum list \<Rightarrow> nat \<Rightarrow> nat \<Rightarrow> jsnum list list" where
  "computeTopEigenvectors covariance n k =
     foldl (\<lambda>components pcIdx. components @ [eigenvector covariance n components pcIdx])
           [] [0..<k]"

definition pca_centered :: "jsnum list list \<Rightarrow> jsnum list" where
  "pca_centered frames =
     (let featureCount = length (frames ! 0);
          timeSteps = length frames;
          matrix = concat frames
      in pca_center matrix (pca_means matrix timeSteps featureCount) timeSteps featureCount)"

text \<open>The projection of the centred data on the three components, before normalisation.\<close>

definition pca_projected :: "jsnum list list \<Rightarrow> jsnum list list" where
  "pca_projected frames =
     (let featureCount = length (frames ! 0);
          timeSteps = length frames;
          matrix = pca_centered frames;
          covariance = pca_covariance matrix timeSteps featureCount;
          components = computeTopEigenvectors covariance featureCount 3
      in map (\<lambda>t. map (\<lambda>pc. foldl (\<lambda>sum f. jadd sum (jmul (matrix ! (t * featureCount + f))
                                                            (components ! pc ! f)))
                                   (Num 0) [0..<featureCount])
                       [0..<3])
             [0..<timeSteps])"

definition axis_mean :: "jsnum list list \<Rightarrow> nat \<Rightarrow> nat \<Rightarrow> jsnum" where
  "axis_mean projected pc timeSteps =
     jdiv (foldl (\<lambda>mean t. jadd mean (projected ! t ! pc)) (Num 0) [0..<timeSteps])
          (Num (of_nat timeSteps))"

definition axis_std :: "jsnum list list \<Rightarrow> nat \<Rightarrow> nat \<Rightarrow> jsnum" where
  "axis_std projected pc timeSteps =
     (let mean = axis_mean projected pc timeSteps;
          variance = jdiv (foldl (\<lambda>variance t.
                                    let diff = jsub (projected ! t ! pc) mean
                                    in jadd variance (jmul diff diff))
                                 (Num 0) [0..<timeSteps])
                          (Num (of_nat timeSteps))
      in jsqrt variance)"

definition normalize_axis :: "nat \<Rightarrow> jsnum list list \<Rightarrow> nat \<Rightarrow> jsnum list list" where
  "normalize_axis timeSteps projected pc =
     (let mean = axis_mean projected pc timeSteps;
          std = axis_std projected pc timeSteps
      in if jgt std (Num (1 / 10 ^ 6))
         then map (\<lambda>t. (projected ! t)[pc := jdiv (jsub (projected ! t ! pc) mean) std])
                  [0..<timeSteps]
         else projected)"

text \<open>
  The local variables of \<^verbatim>\<open>computePCA3D\<close> at the start of the normalisation loop,
  for at least one frame.
\<close>

record PCALocals =
  pl_featureCount :: nat
  pl_timeSteps :: nat
  pl_means :: "jsnum list"
  pl_matrix :: "jsnum list"
  pl_scale :: jsnum
  pl_covariance :: "jsnum list"
  pl_components :: "jsnum list list"
  pl_projected :: "jsnum list list"

definition computePCA3D_locals :: "jsnum list list \<Rightarrow> PCALocals" where
  "computePCA3D_locals frames =
     (let featureCount = length (frames ! 0);
          timeSteps = length frames;
          matrix = pca_centered frames;
          covariance = pca_covariance matrix timeSteps featureCount
      in \<lparr> pl_featureCount = featureCount,
           pl_timeSteps = timeSteps,
           pl_means = pca_means (concat frames) timeSteps featureCount,
           pl_matrix = matrix,
           pl_scale = pca_scale timeSteps,
           pl_covariance = covariance,
           pl_components = computeTopEigenvectors covariance featureCount 3,
           pl_projected = pca_projected frames \<rparr>)"

definition computePCA3D :: "jsnum list list \<Rightarrow> jsnum list list" where
  "computePCA3D mfcc =
     (if length mfcc = 0 then []
      else let locals = computePCA3D_locals mfcc
           in foldl (normalize_axis (pl_timeSteps locals)) (pl_projected locals) [0..<3])"

section \<open>Pipeline orchestrator (audioProcessor.worker.ts)\<close>

typedecl File

datatype WorkerMessage =
    LOAD_VIDEO File
  | EXTRACT_AUDIO File
  | COMPUTE_SPECTROGRAM "jsnum list" real
  | COMPUTE_MFCC_PCA "jsnum list" real
  | CANCEL

datatype WorkerResponse =
    PROGRESS string real
  | AUDIO_EXTRACTED "jsnum list" real real
  | SPECTROGRAM_COMPUTED "jsnum list list" real
  | MFCC_PCA_COMPUTED "jsnum list list" "jsnum list list"
  | ERROR string

fun show_nat :: "nat \<Rightarrow> string" where
  "show_nat n =
     (if n < 10 then [char_of (48 + n)] else show_nat (n div 10) @ [char_of (48 + n mod 10)])"

text \<open>
  The message of a thrown error. The texts of \<^verbatim>\<open>RangeError\<close> and \<^verbatim>\<open>TypeError\<close>
  are the engine's own; the model keeps the name of the error only.
\<close>

fun error_message :: "error \<Rightarrow> string" where
  "error_message WindowLengthError = ''Samples and window must have the same length''"
| "error_message (SpectrumSizeMismatch expectedBins got) =
     ''Magnitude spectrum size mismatch: expected '' @ show_nat expectedBins
       @ '', got '' @ show_nat got"
| "error_message RangeError = ''RangeError''"
| "error_message TypeError = ''TypeError''"

text \<open>
  The worker keeps no variables of its own. Its only effect is \<^verbatim>\<open>postMessage\<close>, so
  the state that a handler run transforms is the sequence of responses posted so far.
  A handler runs to its end before the next message is taken from the queue.
\<close>

definition compute_spectrogram_case ::
  "jsnum list \<Rightarrow> real \<Rightarrow> WorkerResponse list \<Rightarrow> WorkerResponse list option" where
  "compute_spectrogram_case samples sampleRate posted =
     (let posted1 = posted @ [PROGRESS ''Computing spectrogram'' (1 / 10)] in
      case computeSpectrogram samples sampleRate
             DSP_CONFIG_windowSize DSP_CONFIG_hopSize DSP_CONFIG_maxFrames of
        None \<Rightarrow> None
      | Some (Inl e) \<Rightarrow> Some (posted1 @ [ERROR (error_message e)])
      | Some (Inr result) \<Rightarrow>
          Some (posted1 @ [PROGRESS ''Computing spectrogram'' (9 / 10),
                           SPECTROGRAM_COMPUTED (sg_data result) (sg_sampleRate result)]))"

definition compute_mfcc_pca_case ::
  "jsnum list \<Rightarrow> real \<Rightarrow> WorkerResponse list \<Rightarrow> WorkerResponse list option" where
  "compute_mfcc_pca_case samples sampleRate posted =
     (let posted1 = posted @ [PROGRESS ''Computing spectrogram'' (1 / 10)] in
      case computeSpectrogram samples sampleRate
             DSP_CONFIG_windowSize DSP_CONFIG_hopSize DSP_CONFIG_maxFrames of
        None \<Rightarrow> None
      | Some (Inl e) \<Rightarrow> Some (posted1 @ [ERROR (error_message e)])
      | Some (Inr spectrogram) \<Rightarrow>
          let posted2 = posted1 @ [PROGRESS ''Computing mel features'' (3 / 10)];
              fftSize = (case sg_data spectrogram of
                           [] \<Rightarrow> 2048
                         | f # _ \<Rightarrow> if length f \<noteq> 0 then (length f - 1) * 2 else 2048);
              melFilterbank = MelFilterbank_default sampleRate fftSize;
              posted3 = posted2 @ [PROGRESS ''Computing MFCC'' (5 / 10)]
          in case computeMFCC spectrogram melFilterbank DSP_CONFIG_mfccCount of
               (_, Inl e) \<Rightarrow> Some (posted3 @ [ERROR (error_message e)])
             | (_, Inr mfcc) \<Rightarrow>
                 let posted4 = posted3 @ [PROGRESS ''Computing PCA'' (8 / 10)];
                     pcaPoints = computePCA3D mfcc
                 in Some (posted4 @ [MFCC_PCA_COMPUTED pcaPoints mfcc]))"

fun onmessage :: "WorkerMessage \<Rightarrow> WorkerResponse list \<Rightarrow> WorkerResponse list option" where
  "onmessage (COMPUTE_SPECTROGRAM samples sampleRate) posted =
     compute_spectrogram_case samples sampleRate posted"
| "onmessage (COMPUTE_MFCC_PCA samples sampleRate) posted =
     compute_mfcc_pca_case samples sampleRate posted"
| "onmessage CANCEL posted = Some posted"
| "onmessage (LOAD_VIDEO _) posted = Some (posted @ [ERROR ''Unknown message type: LOAD_VIDEO''])"
| "onmessage (EXTRACT_AUDIO _) posted =
     Some (posted @ [ERROR ''Unknown message type: EXTRACT_AUDIO''])"

text \<open>The worker on a queue of messages, handled in the order of their arrival.\<close>

fun worker_run :: "WorkerMessage list \<Rightarrow> WorkerResponse list \<Rightarrow> WorkerResponse list option" where
  "worker_run [] posted = Some posted"
| "worker_run (message # queue) posted =
     (case onmessage message posted of
        None \<Rightarrow> None
      | Some posted' \<Rightarrow> worker_run queue posted')"


section \<open>Closed forms used in the statements\<close>

text \<open>The number of frames that the frame loop produces for positive window and hop sizes.\<close>

definition frame_count :: "nat \<Rightarrow> nat \<Rightarrow> nat \<Rightarrow> nat \<Rightarrow> int" where
  "frame_count len windowSize hopSize maxFrames =
     max 0 (min (int maxFrames) ((int len - int windowSize) div int hopSize + 1))"

text \<open>
  The weighted sum of a magnitude spectrum over the weights of one filter, in the words
  of the specification.
\<close>

definition weighted_sum :: "jsnum list \<Rightarrow> jsnum list \<Rightarrow> jsnum" where
  "weighted_sum weights spectrum =
     foldl jadd (Num 0) (map (\<lambda>(w, x). jmul w x) (zip weights spectrum))"






text \<open>
  A finite single-precision number: a finite number that a store into a
  \<^verbatim>\<open>Float32Array\<close> leaves as it is.
\<close>

definition is_f32 :: "jsnum \<Rightarrow> bool" where
  "is_f32 x \<longleftrightarrow> finite_num x \<and> fround x = x"

text \<open>
  Mean, standard deviation (the variance is divided by the number of frames, as the code
  does) and z-score of a sequence of reals, in the words of the specification.
\<close>

definition mean_of :: "real list \<Rightarrow> real" where
  "mean_of xs = (\<Sum>i<length xs. xs ! i) / real (length xs)"

definition std_of :: "real list \<Rightarrow> real" where
  "std_of xs = sqrt ((\<Sum>i<length xs. (xs ! i - mean_of xs) * (xs ! i - mean_of xs)) / real (length xs))"

definition zscore :: "real list \<Rightarrow> real list" where
  "zscore xs = map (\<lambda>x. (x - mean_of xs) / std_of xs) xs"

text \<open>One output axis: coordinate \<open>pc\<close> of every point, in frame order.\<close>

definition axis :: "nat \<Rightarrow> jsnum list list \<Rightarrow> jsnum list" where
  "axis pc points = map (\<lambda>p. p ! pc) points"

text \<open>The normalisation step of the code, read as a function of one axis alone.\<close>

definition normalize_column :: "nat \<Rightarrow> jsnum list \<Rightarrow> jsnum list" where
  "normalize_column T col =
     (let mean = jdiv (foldl (\<lambda>mean t. jadd mean (col ! t)) (Num 0) [0..<T]) (Num (of_nat T));
          std = jsqrt (jdiv (foldl (\<lambda>variance t. jadd variance (jmul (jsub (col ! t) mean)
                                                                       (jsub (col ! t) mean)))
                                   (Num 0) [0..<T])
                            (Num (of_nat T)))
      in if jgt std (Num (1 / 10 ^ 6)) then map (\<lambda>t. jdiv (jsub (col ! t) mean) std) [0..<T]
         else col)"

declare spectrogram_loop.simps [simp del]

declare fround.simps [simp del]

section \<open>Properties of the single-precision store\<close>

lemma round_even_of_int [simp]: "round_even (of_int k) = k"
  by (simp add: round_even_def)

lemma round_even_abs_le:
  assumes "\<bar>y\<bar> \<le> of_int N"
  shows "\<bar>round_even y\<bar> \<le> N"
proof -
  have lo: "- N \<le> \<lfloor>y\<rfloor>" using assms by (simp add: le_floor_iff abs_le_iff)
  have hi: "\<lfloor>y\<rfloor> \<le> N" using assms by (simp add: floor_le_iff abs_le_iff)
  have up: "\<lfloor>y\<rfloor> + 1 \<le> N" if "1 / 2 \<le> y - of_int \<lfloor>y\<rfloor>"
  proof -
    have "of_int \<lfloor>y\<rfloor> < (of_int N :: real)" using that assms by (simp add: abs_le_iff)
    then show ?thesis by simp
  qed
  show ?thesis
    using lo hi up unfolding round_even_def Let_def
    by (auto simp: abs_le_iff not_less split: if_splits)
qed

lemma f32_ulp_pos [simp]: "0 < f32_ulp x"
  by (simp add: f32_ulp_def)

text \<open>The exponent of a nonzero number below \<open>2 ^ k\<close>.\<close>

lemma floor_log2_less:
  assumes "x \<noteq> 0" "\<bar>x\<bar> < 2 powr of_int k"
  shows "\<lfloor>log 2 \<bar>x\<bar>\<rfloor> < k"
proof -
  have "log 2 \<bar>x\<bar> < of_int k"
    using assms by (simp add: log_less_iff)
  then show ?thesis by (simp add: floor_less_iff)
qed

lemma floor_log2_le:
  assumes "x \<noteq> 0" "\<bar>x\<bar> \<le> 2 powr of_int k"
  shows "\<lfloor>log 2 \<bar>x\<bar>\<rfloor> \<le> k"
proof -
  have "log 2 \<bar>x\<bar> \<le> of_int k"
    using assms by (simp add: log_le_iff)
  then show ?thesis by (simp add: floor_le_iff)
qed

lemma powr_int_diff:
  assumes "a \<le> (b::int)"
  shows "(2::real) powr of_int b / 2 powr of_int a = of_int (2 ^ nat (b - a))"
proof -
  have "(2::real) powr of_int b / 2 powr of_int a = 2 powr (of_int b - of_int a)"
    by (simp add: powr_diff)
  also have "of_int b - of_int a = (real (nat (b - a)))" using assms by simp
  also have "(2::real) powr real (nat (b - a)) = 2 ^ nat (b - a)"
    by (simp add: powr_realpow)
  finally show ?thesis by simp
qed

text \<open>A number of 24 significant bits with an exponent in range is stored as it is.\<close>

lemma fround_repr:
  assumes "\<bar>m\<bar> < 2 ^ 24" "- 149 \<le> p" "p \<le> 104"
  shows "fround (Num (of_int m * 2 powr of_int p)) = Num (of_int m * 2 powr of_int p)"
proof (cases "m = 0")
  case True
  then show ?thesis by (simp add: fround.simps)
next
  case False
  define x :: real where "x = of_int m * 2 powr of_int p"
  have x0: "x \<noteq> 0" using False by (simp add: x_def)
  have "\<bar>x\<bar> = of_int \<bar>m\<bar> * 2 powr of_int p" by (simp add: x_def abs_mult)
  also have "\<dots> < 2 ^ 24 * 2 powr of_int p"
  proof -
    have "(of_int \<bar>m\<bar> :: real) < of_int (2 ^ 24)" using assms(1) by (simp only: of_int_less_iff)
    then show ?thesis by simp
  qed
  also have "\<dots> = 2 powr of_int (24 + p)"
    by (simp add: powr_add powr_realpow[symmetric])
  finally have lt: "\<bar>x\<bar> < 2 powr of_int (24 + p)" .
  define e where "e = max (- 126) \<lfloor>log 2 \<bar>x\<bar>\<rfloor>"
  have "\<lfloor>log 2 \<bar>x\<bar>\<rfloor> < 24 + p" using floor_log2_less[OF x0 lt] .
  then have le: "e - 23 \<le> p" using assms(2) by (simp add: e_def)
  have q: "f32_ulp x = 2 powr of_int (e - 23)" by (simp add: f32_ulp_def e_def)
  have "x / f32_ulp x = of_int m * (2 powr of_int p / 2 powr of_int (e - 23))"
    unfolding q by (simp add: x_def)
  also have "\<dots> = of_int (m * 2 ^ nat (p - (e - 23)))"
    by (simp only: powr_int_diff[OF le] of_int_mult)
  finally have "round_even (x / f32_ulp x) = m * 2 ^ nat (p - (e - 23))"
    by (simp only: round_even_of_int)
  then have "of_int (round_even (x / f32_ulp x)) * f32_ulp x
             = of_int m * (of_int (2 ^ nat (p - (e - 23))) * 2 powr of_int (e - 23))"
    by (simp add: q)
  also have "of_int (2 ^ nat (p - (e - 23))) * 2 powr of_int (e - 23) = (2::real) powr of_int p"
    using powr_int_diff[OF le] by (simp add: field_simps)
  finally have r: "of_int (round_even (x / f32_ulp x)) * f32_ulp x = x" by (simp add: x_def)
  have "(2::real) powr of_int (24 + p) \<le> 2 powr of_int 128"
    by (rule powr_mono) (use assms(3) in simp_all)
  also have "(2::real) powr of_int 128 = 2 ^ 128"
    using powr_realpow[of "2::real" 128] by simp
  finally have "\<bar>x\<bar> < 2 ^ 128" using lt by linarith
  then show ?thesis using x0 r by (simp add: x_def[symmetric] Let_def fround.simps)
qed

text \<open>A store keeps a number within a power of two that bounds it, and in range.\<close>

lemma fround_bound:
  assumes "\<bar>x\<bar> \<le> 2 powr of_int k" "- 126 \<le> k" "k \<le> 127"
  shows "\<exists>y. fround (Num x) = Num y \<and> \<bar>y\<bar> \<le> 2 powr of_int k"
proof (cases "x = 0")
  case True
  then show ?thesis by (simp add: fround.simps)
next
  case False
  define e where "e = max (- 126) \<lfloor>log 2 \<bar>x\<bar>\<rfloor>"
  have "\<lfloor>log 2 \<bar>x\<bar>\<rfloor> \<le> k" using floor_log2_le[OF False assms(1)] .
  then have le: "e - 23 \<le> k" using assms(2) by (simp add: e_def)
  have q: "f32_ulp x = 2 powr of_int (e - 23)" by (simp add: f32_ulp_def e_def)
  define N :: int where "N = 2 ^ nat (k - (e - 23))"
  have N: "of_int N * f32_ulp x = 2 powr of_int k"
    using powr_int_diff[OF le] by (simp add: q N_def field_simps)
  have "\<bar>x / f32_ulp x\<bar> = \<bar>x\<bar> / f32_ulp x"
    using f32_ulp_pos[of x] by (simp only: abs_divide abs_of_pos)
  also have "\<dots> \<le> 2 powr of_int k / f32_ulp x"
    by (intro divide_right_mono assms(1) less_imp_le f32_ulp_pos)
  also have "\<dots> = of_int N * f32_ulp x / f32_ulp x" by (simp only: N)
  also have "\<dots> = of_int N" by (simp add: f32_ulp_def)
  finally have "\<bar>round_even (x / f32_ulp x)\<bar> \<le> N" by (rule round_even_abs_le)
  then have "(of_int \<bar>round_even (x / f32_ulp x)\<bar> :: real) \<le> of_int N"
    by (simp only: of_int_le_iff)
  then have "\<bar>of_int (round_even (x / f32_ulp x))\<bar> * f32_ulp x \<le> of_int N * f32_ulp x"
    by (intro mult_right_mono) (simp_all add: less_imp_le)
  then have "\<bar>of_int (round_even (x / f32_ulp x)) * f32_ulp x\<bar> \<le> of_int N * f32_ulp x"
    by (simp add: abs_mult abs_of_pos)
  then have b: "\<bar>of_int (round_even (x / f32_ulp x)) * f32_ulp x\<bar> \<le> 2 powr of_int k"
    using N by simp
  have "(2::real) powr of_int k \<le> 2 powr of_int 127"
    by (rule powr_mono) (use assms(3) in simp_all)
  also have "(2::real) powr of_int 127 = 2 ^ 127"
    using powr_realpow[of "2::real" 127] by simp
  also have "\<dots> < (2::real) ^ 128" by simp
  finally have "\<bar>of_int (round_even (x / f32_ulp x)) * f32_ulp x\<bar> < 2 ^ 128" using b by linarith
  then show ?thesis using False b by (simp add: Let_def fround.simps)
qed

lemma fround_int:
  assumes "\<bar>m\<bar> < 2 ^ 24"
  shows "fround (Num (of_int m)) = Num (of_int m)"
  using fround_repr[OF assms, of 0] by simp

lemma fround_16777217: "fround (Num 16777217) = Num 16777216"
proof -
  have l: "\<lfloor>log 2 \<bar>16777217::real\<bar>\<rfloor> = 24"
    by (simp add: floor_eq_iff le_log_iff log_less_iff powr_realpow[symmetric] del: powr_realpow)
  have q: "f32_ulp 16777217 = 2" using l by (simp add: f32_ulp_def)
  have "round_even (16777217 / 2) = 8388608"
    by (simp add: round_even_def Let_def floor_eq_iff)
  then show ?thesis using q by (simp add: Let_def fround.simps)
qed

lemma fround_special [simp]:
  "fround (Num 0) = Num 0" "fround PInf = PInf" "fround NInf = NInf" "fround NaN = NaN"
  by (simp_all add: fround.simps)

lemma fround_small [simp]:
  "fround (Num 1) = Num 1" "fround (Num (- 1)) = Num (- 1)" "fround (Num 2) = Num 2"
  using fround_int[of 1] fround_int[of "- 1"] fround_int[of 2] by simp_all


section \<open>Properties of the transform engine\<close>

lemma nextPow2_ge: "n \<le> nextPow2 n"
proof (cases "n = 0")
  case True then show ?thesis by (simp add: nextPow2_def)
next
  case False
  define c where "c = nat \<lceil>log 2 (real n)\<rceil>"
  have pos: "0 < real n" using False by simp
  have "0 \<le> log 2 (real n)" using False by (simp add: zero_le_log_cancel_iff)
  then have c0: "0 \<le> \<lceil>log 2 (real n)\<rceil>" by (simp add: less_ceiling_iff)
  have "log 2 (real n) \<le> of_int \<lceil>log 2 (real n)\<rceil>" by (rule le_of_int_ceiling)
  also have "\<dots> = real c" using c0 by (simp add: c_def)
  finally have "log 2 (real n) \<le> real c" .
  then have "real n \<le> 2 powr real c" using pos by (simp add: log_le_iff)
  also have "\<dots> = 2 ^ c" by (simp add: powr_realpow)
  finally have "real n \<le> real (2 ^ c)" by simp
  then have "n \<le> 2 ^ c" by (simp only: of_nat_le_iff)
  then show ?thesis using False by (simp add: nextPow2_def c_def)
qed

lemma nextPow2_is_pow2: "0 < n \<Longrightarrow> \<exists>k. nextPow2 n = 2 ^ k"
  by (auto simp: nextPow2_def)

lemma nextPow2_pow2 [simp]: "nextPow2 (2 ^ k) = 2 ^ k"
  by (simp add: nextPow2_def log_pow_cancel)

lemma nextPow2_0 [simp]: "nextPow2 0 = 0"
  by (simp add: nextPow2_def)

lemma nextPow2_4: "nextPow2 4 = 4"
  using nextPow2_pow2[of 2] by simp

lemma nextPow2_least:
  assumes "0 < n" "n \<le> 2 ^ j"
  shows "nextPow2 n \<le> 2 ^ j"
proof -
  have "real n \<le> 2 ^ j"
    using assms(2) by (metis of_nat_le_iff of_nat_numeral of_nat_power)
  then have "log 2 (real n) \<le> real j"
    using assms(1) by (simp add: log_le_iff powr_realpow)
  then have "nat \<lceil>log 2 (real n)\<rceil> \<le> j" by simp
  then show ?thesis using assms(1) by (simp add: nextPow2_def)
qed

text \<open>The recursion returns on no empty array.\<close>

lemma fft_Some_nonempty: "fft x = Some r \<Longrightarrow> x \<noteq> []"
proof (rule fft.raw_induct[where P="\<lambda>x r. x \<noteq> []"], goal_cases)
  case (1 f x r)
  show ?case
  proof
    assume "x = []"
    with 1 obtain e where "f [] = Some e" by (auto split: if_splits bind_splits)
    with 1 show False by blast
  qed
qed

lemma fft_empty: "fft [] = None"
  using fft_Some_nonempty[of "[]"] by (cases "fft []") auto

lemma length_combine [simp]:
  "length (real_part (combine N e o')) = N" "length (imag_part (combine N e o')) = N"
  by (simp_all add: combine_def Let_def)

text \<open>On a power-of-two length the recursion returns, by induction on the exponent.\<close>

lemma fft_pow2:
  "length x = 2 ^ k \<Longrightarrow>
   \<exists>r. fft x = Some r \<and> length (real_part r) = 2 ^ k \<and> length (imag_part r) = 2 ^ k"
proof (induction k arbitrary: x)
  case 0
  then show ?case by (subst fft.simps) simp
next
  case (Suc k)
  let ?e = "map (\<lambda>i. x ! (2 * i)) [0..<length x div 2]"
  let ?o = "map (\<lambda>i. x ! (2 * i + 1)) [0..<length x div 2]"
  have le: "length ?e = 2 ^ k" and lo: "length ?o = 2 ^ k" using Suc.prems by simp_all
  obtain re where re: "fft ?e = Some re" using Suc.IH[OF le] by blast
  obtain ro where ro: "fft ?o = Some ro" using Suc.IH[OF lo] by blast
  have ne: "length x \<noteq> 1" using Suc.prems by simp
  have "fft x = Some (combine (length x) re ro)"
    by (subst fft.simps) (simp only: ne re ro if_False Option.bind.simps)
  then show ?case using Suc.prems by simp
qed

text \<open>
  Claim C4, as the code has it. For a transform size of at least one, \<open>computeFFT\<close>
  returns, and both output arrays have the length of the least power of two that is not
  below the transform size argument, whatever the length of the input: the transformed
  array is the input cut to that length and filled up with zeros.
\<close>

theorem computeFFT_padded_length:
  assumes "0 < fftSize"
  shows "\<exists>r. computeFFT samples fftSize = Some r
           \<and> length (real_part r) = nextPow2 fftSize
           \<and> length (imag_part r) = nextPow2 fftSize
           \<and> (\<exists>k. nextPow2 fftSize = 2 ^ k)
           \<and> fftSize \<le> nextPow2 fftSize
           \<and> (\<forall>j. fftSize \<le> 2 ^ j \<longrightarrow> nextPow2 fftSize \<le> 2 ^ j)
           \<and> computeFFT samples fftSize =
               fft (take (nextPow2 fftSize) samples
                    @ replicate (nextPow2 fftSize - length samples) (Num 0))"
proof -
  let ?P = "nextPow2 fftSize"
  let ?input = "map (\<lambda>i. if i < min (length samples) ?P then samples ! i else Num 0) [0..<?P]"
  obtain k where k: "?P = 2 ^ k" using nextPow2_is_pow2[OF assms] by blast
  have "length ?input = 2 ^ k" using k by simp
  from fft_pow2[OF this] obtain r where r: "fft ?input = Some r"
    "length (real_part r) = 2 ^ k" "length (imag_part r) = 2 ^ k" by blast
  have inp: "?input = take ?P samples @ replicate (?P - length samples) (Num 0)"
    by (rule nth_equalityI) (auto simp: nth_append)
  have c: "computeFFT samples fftSize = fft ?input" by (simp add: computeFFT_def Let_def)
  show ?thesis
    using r k c inp nextPow2_ge[of fftSize] nextPow2_least[OF assms] by auto
qed

theorem computeFFT_padded_length_witness:
  "0 < (4::nat) \<and> (\<exists>r. computeFFT [Num 1, Num 2, Num 3] 4 = Some r
      \<and> length (real_part r) = 4 \<and> length (imag_part r) = 4)"
  using computeFFT_padded_length[of 4 "[Num 1, Num 2, Num 3]"] by (auto simp: nextPow2_4)

text \<open>
  Claim C4, as stated, fails for the transform size zero: the padded array is empty and
  the recursion never returns.
\<close>

theorem computeFFT_zero_size_diverges: "computeFFT [Num 1] 0 = None"
  by (simp add: computeFFT_def fft_empty)

text \<open>An input longer than the transform size is cut, not padded.\<close>

lemma computeFFT_truncates: "computeFFT [a, b, c] 2 = fft [a, b]"
proof -
  have "nextPow2 2 = 2" using nextPow2_pow2[of 1] by simp
  then show ?thesis by (simp add: computeFFT_def Let_def upt_rec numeral_2_eq_2)
qed

section \<open>Properties of the window\<close>

lemma hannWindow_nth:
  assumes "2 \<le> N" "i < N"
  shows "hannWindow N ! i = fround (Num (0.5 * (1 - cos (2 * pi * (real i / (real N - 1))))))"
  using assms by (simp add: hannWindow_def Let_def jsub_def)

text \<open>
  The window of size one has the single entry \<open>0.5 * (1 - cos (2 * pi * (0 / 0)))\<close>,
  which is NaN.
\<close>

lemma hannWindow_1: "hannWindow (Suc 0) = [NaN]"
  by (simp add: hannWindow_def Let_def jinf_def jsub_def)

text \<open>
  Claim C5 at the window size 1, which the claim includes: the window is \<open>[NaN]\<close>, and
  its only entry is not equal to its mirror entry, which is itself, since NaN is equal to
  no number.
\<close>

theorem hannWindow_size_one_not_symmetric:
  "hannWindow 1 = [NaN] \<and> \<not> jeq (hannWindow 1 ! 0) (hannWindow 1 ! (1 - 1 - 0))"
  by (simp add: hannWindow_1 jeq_def)

section \<open>Properties of the spectrogram builder\<close>

lemma computeFFT_returns:
  assumes "0 < fftSize"
  shows "\<exists>r. computeFFT samples fftSize = Some r
           \<and> length (real_part r) = nextPow2 fftSize
           \<and> length (imag_part r) = nextPow2 fftSize"
proof -
  let ?P = "nextPow2 fftSize"
  let ?input = "map (\<lambda>i. if i < min (length samples) ?P then samples ! i else Num 0) [0..<?P]"
  obtain k where k: "?P = 2 ^ k" using nextPow2_is_pow2[OF assms] by blast
  have "length ?input = 2 ^ k" using k by simp
  from fft_pow2[OF this] obtain r where r: "fft ?input = Some r"
    "length (real_part r) = 2 ^ k" "length (imag_part r) = 2 ^ k" by blast
  have c: "computeFFT samples fftSize = fft ?input" by (simp add: computeFFT_def Let_def)
  show ?thesis using r k c by auto
qed

lemma nextPow2_idem: "nextPow2 (nextPow2 n) = nextPow2 n"
proof (cases "n = 0")
  case True then show ?thesis by simp
next
  case False
  then obtain k where "nextPow2 n = 2 ^ k" using nextPow2_is_pow2[of n] by auto
  then show ?thesis by simp
qed

lemma nextPow2_pos: "0 < n \<Longrightarrow> 0 < nextPow2 n"
  using nextPow2_ge[of n] by linarith

lemma length_hannWindow [simp]: "length (hannWindow n) = n"
  by (simp add: hannWindow_def Let_def)

lemma length_preEmphasis [simp]: "length (preEmphasis samples) = length samples"
  by (simp add: preEmphasis_def)

lemma length_magnitudeSpectrum [simp]:
  "length (magnitudeSpectrum r) = length (real_part r)"
  by (simp add: magnitudeSpectrum_def)

lemma nFrames_bound_Num:
  assumes "0 < hopSize"
  shows "nFrames_bound len windowSize hopSize maxFrames
         = Num (of_int (min (int maxFrames) ((int len - int windowSize) div int hopSize + 1)))"
proof -
  have "\<lfloor>(of_int (int len - int windowSize) :: real) / of_int (int hopSize)\<rfloor>
        = (int len - int windowSize) div int hopSize"
    by (rule floor_divide_of_int_eq)
  then have "\<lfloor>(real_of_int (int len - int windowSize)) / real hopSize\<rfloor>
        = (int len - int windowSize) div int hopSize" by simp
  then show ?thesis using assms
    by (simp add: nFrames_bound_def jmin_def min_def)
qed

text \<open>A full window at \<open>start\<close> gives a frame of \<open>\<lfloor>fftSize / 2\<rfloor> + 1\<close> magnitudes.\<close>

lemma spectrogram_frame_ok:
  assumes "0 < windowSize" "start + windowSize \<le> length pre"
  shows "\<exists>f. spectrogram_frame pre (hannWindow windowSize) windowSize (nextPow2 windowSize) start
              = Some (Inr f) \<and> length f = nextPow2 windowSize div 2 + 1"
proof -
  let ?F = "nextPow2 windowSize"
  let ?frame = "take windowSize (drop start pre)"
  have lf: "length ?frame = windowSize" using assms by simp
  obtain windowed where w: "applyWindow ?frame (hannWindow windowSize) = Inr windowed"
    "length windowed = windowSize"
    using lf by (simp add: applyWindow_def)
  have le: "\<not> ?F < length windowed" using w nextPow2_ge[of windowSize] by simp
  let ?padded = "windowed @ replicate (?F - length windowed) (Num 0)"
  have Fpos: "0 < ?F" using assms nextPow2_pos by simp
  obtain r where r: "computeFFT ?padded ?F = Some r" "length (real_part r) = ?F"
    using computeFFT_returns[OF Fpos, of ?padded] by (auto simp: nextPow2_idem)
  have "?F div 2 + 1 \<le> ?F" using Fpos by (cases "?F") auto
  then have "length (take (?F div 2 + 1) (magnitudeSpectrum r)) = ?F div 2 + 1"
    using r by simp
  then show ?thesis using w le r
    by (simp add: spectrogram_frame_def Let_def)
qed

text \<open>
  The frame loop, by induction on the number of frames still to come: the guard before
  the \<^verbatim>\<open>break\<close> never fires below the loop bound.
\<close>

lemma spectrogram_loop_ok:
  assumes "0 < windowSize" "0 < hopSize"
    and "int frameIdx \<le> frame_count (length pre) windowSize hopSize maxFrames"
    and "nat (frame_count (length pre) windowSize hopSize maxFrames) - frameIdx = k"
  shows "\<exists>fs. spectrogram_loop pre (hannWindow windowSize) windowSize hopSize maxFrames
                 (nextPow2 windowSize) frameIdx acc = Some (Inr (acc @ fs))
              \<and> int (length fs) = frame_count (length pre) windowSize hopSize maxFrames - int frameIdx
              \<and> (\<forall>f \<in> set fs. length f = nextPow2 windowSize div 2 + 1)"
  using assms(3,4)
proof (induction k arbitrary: frameIdx acc)
  case 0
  let ?m = "min (int maxFrames) ((int (length pre) - int windowSize) div int hopSize + 1)"
  from 0 have eq: "int frameIdx = frame_count (length pre) windowSize hopSize maxFrames" by simp
  then have "?m \<le> int frameIdx" unfolding frame_count_def by linarith
  then have "\<not> real frameIdx < real_of_int ?m"
    by (metis of_int_le_iff of_int_of_nat_eq not_less) 
  then have "spectrogram_loop pre (hannWindow windowSize) windowSize hopSize maxFrames
                 (nextPow2 windowSize) frameIdx acc = Some (Inr acc)"
    by (subst spectrogram_loop.simps) (simp add: nFrames_bound_Num[OF assms(2)])
  then show ?case using eq by simp
next
  case (Suc k)
  let ?q = "(int (length pre) - int windowSize) div int hopSize"
  let ?m = "min (int maxFrames) (?q + 1)"
  from Suc.prems have lt: "int frameIdx < frame_count (length pre) windowSize hopSize maxFrames"
    by linarith
  then have ltm: "int frameIdx < ?m" unfolding frame_count_def by linarith
  then have c1: "real frameIdx < real_of_int ?m"
    by (metis of_int_less_iff of_int_of_nat_eq)
  from ltm have "int frameIdx \<le> ?q" by simp
  then have "int frameIdx * int hopSize \<le> ?q * int hopSize"
    by (rule mult_right_mono) simp
  also have "?q * int hopSize \<le> int (length pre) - int windowSize"
    using assms(2) div_mult_mod_eq[of "int (length pre) - int windowSize" "int hopSize"]
      pos_mod_sign[of "int hopSize" "int (length pre) - int windowSize"] by linarith
  finally have c2: "frameIdx * hopSize + windowSize \<le> length pre"
    by (metis (no_types, opaque_lifting) add.commute le_diff_eq of_nat_add of_nat_le_iff of_nat_mult)
  obtain f where f: "spectrogram_frame pre (hannWindow windowSize) windowSize (nextPow2 windowSize)
       (frameIdx * hopSize) = Some (Inr f)" "length f = nextPow2 windowSize div 2 + 1"
    using spectrogram_frame_ok[OF assms(1) c2] by blast
  have step: "spectrogram_loop pre (hannWindow windowSize) windowSize hopSize maxFrames
                 (nextPow2 windowSize) frameIdx acc
        = spectrogram_loop pre (hannWindow windowSize) windowSize hopSize maxFrames
                 (nextPow2 windowSize) (Suc frameIdx) (acc @ [f])"
    using c1 c2 f by (subst spectrogram_loop.simps) (simp add: nFrames_bound_Num[OF assms(2)])
  have p1: "int (Suc frameIdx) \<le> frame_count (length pre) windowSize hopSize maxFrames"
    using lt by simp
  have p2: "nat (frame_count (length pre) windowSize hopSize maxFrames) - Suc frameIdx = k"
    using Suc.prems by simp
  from Suc.IH[OF p1 p2, of "acc @ [f]"] obtain fs where fs:
    "spectrogram_loop pre (hannWindow windowSize) windowSize hopSize maxFrames
                 (nextPow2 windowSize) (Suc frameIdx) (acc @ [f]) = Some (Inr ((acc @ [f]) @ fs))"
    "int (length fs) = frame_count (length pre) windowSize hopSize maxFrames - int (Suc frameIdx)"
    "\<forall>f \<in> set fs. length f = nextPow2 windowSize div 2 + 1" by blast
  show ?case
    by (rule exI[of _ "f # fs"]) (use step fs f in simp)
qed


text \<open>
  Claim C1, as the code has it. For a window size and a hop size of at least one,
  \<open>computeSpectrogram\<close> returns a spectrogram; the pre-emphasised signal has the length
  of the input; the frame count is \<open>max 0 (min maxFrames (\<lfloor>(len - windowSize) / hopSize\<rfloor> + 1))\<close>,
  which is the formula without the \<open>max\<close> as soon as one full window fits and zero
  when none fits; every frame has \<open>\<lfloor>fftSize / 2\<rfloor> + 1\<close> bins, \<open>fftSize\<close> being the least
  power of two that is not below the window size.
\<close>

theorem computeSpectrogram_frames:
  assumes "0 < windowSize" "0 < hopSize"
  shows "\<exists>r. computeSpectrogram samples sampleRate windowSize hopSize maxFrames = Some (Inr r)
           \<and> length (preEmphasis samples) = length samples
           \<and> int (length (sg_data r))
               = max 0 (min (int maxFrames)
                   ((int (length (preEmphasis samples)) - int windowSize) div int hopSize + 1))
           \<and> sg_nFrames r = length (sg_data r)
           \<and> (\<forall>f \<in> set (sg_data r). length f = nextPow2 windowSize div 2 + 1)
           \<and> (\<exists>k. nextPow2 windowSize = 2 ^ k) \<and> windowSize \<le> nextPow2 windowSize
           \<and> (\<forall>j. windowSize \<le> 2 ^ j \<longrightarrow> nextPow2 windowSize \<le> 2 ^ j)
           \<and> (length samples < windowSize \<longrightarrow> sg_data r = [])
           \<and> (windowSize \<le> length samples \<longrightarrow>
                int (length (sg_data r))
                = min (int maxFrames)
                    ((int (length (preEmphasis samples)) - int windowSize) div int hopSize + 1))"
proof -
  let ?pre = "preEmphasis samples"
  let ?q = "(int (length ?pre) - int windowSize) div int hopSize"
  let ?c = "frame_count (length ?pre) windowSize hopSize maxFrames"
  have c0: "int 0 \<le> ?c" by (simp add: frame_count_def)
  from spectrogram_loop_ok[OF assms c0 refl, of "[]"] obtain fs where fs:
    "spectrogram_loop ?pre (hannWindow windowSize) windowSize hopSize maxFrames
       (nextPow2 windowSize) 0 [] = Some (Inr fs)"
    "int (length fs) = ?c" "\<forall>f \<in> set fs. length f = nextPow2 windowSize div 2 + 1"
    by auto
  let ?r = "\<lparr> sg_data = fs, sg_sampleRate = sampleRate, sg_hopSize = hopSize,
              sg_windowSize = windowSize, sg_nFrames = length fs,
              sg_nBins = (case fs of [] \<Rightarrow> 0 | f # _ \<Rightarrow> length f) \<rparr>"
  have r: "computeSpectrogram samples sampleRate windowSize hopSize maxFrames = Some (Inr ?r)"
    using fs(1) by (simp add: computeSpectrogram_def Let_def)
  have short: "?c = 0" if "length samples < windowSize"
  proof -
    have "int (length ?pre) - int windowSize < 0" using that by simp
    then have "?q < 0" using assms(2) by (simp add: div_neg_pos_less0)
    then show ?thesis by (simp add: frame_count_def)
  qed
  have full: "?c = min (int maxFrames) (?q + 1)" if "windowSize \<le> length samples"
  proof -
    have "0 \<le> int (length ?pre) - int windowSize" using that by simp
    then have "0 \<le> ?q" using assms(2) by (simp add: pos_imp_zdiv_nonneg_iff)
    then show ?thesis by (simp add: frame_count_def)
  qed
  have "int (length (sg_data ?r)) = max 0 (min (int maxFrames) (?q + 1))"
    using fs(2) by (simp add: frame_count_def)
  moreover have "sg_data ?r = []" if "length samples < windowSize"
    using short[OF that] fs(2) by simp
  moreover have "int (length (sg_data ?r)) = min (int maxFrames) (?q + 1)"
    if "windowSize \<le> length samples"
    using full[OF that] fs(2) by simp
  moreover have "\<forall>f \<in> set (sg_data ?r). length f = nextPow2 windowSize div 2 + 1"
    using fs(3) by simp
  moreover have "sg_nFrames ?r = length (sg_data ?r)" by simp
  moreover have "\<exists>k. nextPow2 windowSize = 2 ^ k" using nextPow2_is_pow2[OF assms(1)] .
  moreover have "\<forall>j. windowSize \<le> 2 ^ j \<longrightarrow> nextPow2 windowSize \<le> 2 ^ j"
    using nextPow2_least[OF assms(1)] by blast
  ultimately show ?thesis using r nextPow2_ge[of windowSize] length_preEmphasis[of samples]
    by blast
qed

theorem computeSpectrogram_frames_witness:
  "0 < (4::nat) \<and> 0 < (2::nat) \<and>
   (\<exists>r. computeSpectrogram (replicate 9 (Num 0)) 44100 4 2 2000 = Some (Inr r)
      \<and> int (length (sg_data r)) = 3 \<and> (\<forall>f \<in> set (sg_data r). length f = 3))"
proof -
  have h: "0 < (4::nat)" "0 < (2::nat)" by simp_all
  from computeSpectrogram_frames[OF h, of "replicate 9 (Num 0)" 44100 2000]
  show ?thesis by (auto simp: nextPow2_4)
qed

text \<open>
  Claim C1, as stated, fails on an input much shorter than the window: with the default
  configuration and one sample the formula of the claim is \<open>-3\<close>, and the spectrogram
  has no frame.
\<close>

theorem computeSpectrogram_short_input_count:
  "computeSpectrogram [Num 1] 44100 2048 512 2000
     = Some (Inr \<lparr> sg_data = [], sg_sampleRate = 44100, sg_hopSize = 512,
                   sg_windowSize = 2048, sg_nFrames = 0, sg_nBins = 0 \<rparr>)
   \<and> int (length ([] :: jsnum list list))
       \<noteq> min (int 2000) ((int (length (preEmphasis [Num 1])) - int 2048) div int 512 + 1)"
  by (simp add: computeSpectrogram_def Let_def spectrogram_loop.simps nFrames_bound_def jmin_def)

text \<open>With a window of size zero the transform is taken of the empty array and never returns.\<close>

lemma computeSpectrogram_zero_window_diverges:
  "computeSpectrogram [Num 1] 44100 0 512 2000 = None"
  by (simp add: computeSpectrogram_def Let_def spectrogram_loop.simps nFrames_bound_def jmin_def
      spectrogram_frame_def applyWindow_def hannWindow_def computeFFT_def fft_empty)


section \<open>Properties of the mel filterbank\<close>

text \<open>The accumulation loop of \<^verbatim>\<open>apply\<close> is the weighted sum.\<close>

lemma mel_sum_weighted: "mel_sum weights spectrum = weighted_sum weights spectrum"
proof -
  let ?n = "min (length weights) (length spectrum)"
  have "map (\<lambda>freqIdx. jmul (weights ! freqIdx) (spectrum ! freqIdx)) [0..<?n]
        = map (\<lambda>(w, x). jmul w x) (zip weights spectrum)"
    by (rule nth_equalityI) simp_all
  moreover have "mel_sum weights spectrum
        = foldl jadd (Num 0) (map (\<lambda>freqIdx. jmul (weights ! freqIdx) (spectrum ! freqIdx)) [0..<?n])"
    by (simp add: mel_sum_def foldl_map)
  ultimately show ?thesis by (simp add: weighted_sum_def)
qed

lemma foldl_jadd_Num:
  "foldl (\<lambda>s i. jadd s (Num (g i))) (Num a) [0..<n] = Num (a + (\<Sum>i<n. g i))"
  by (induction n) simp_all

lemma foldl_jadd_Num_cong:
  assumes "\<And>i. i < n \<Longrightarrow> f i = Num (g i)"
  shows "foldl (\<lambda>s i. jadd s (f i)) (Num a) [0..<n] = Num (a + (\<Sum>i<n. g i))"
proof -
  have "foldl (\<lambda>s i. jadd s (f i)) (Num a) [0..<n] = foldl (\<lambda>s i. jadd s (Num (g i))) (Num a) [0..<n]"
    by (rule foldl_cong) (simp_all add: assms)
  then show ?thesis by (simp add: foldl_jadd_Num)
qed

lemma weighted_sum_finite:
  "weighted_sum (map Num ws) (map Num xs) = Num (\<Sum>i<min (length ws) (length xs). ws ! i * xs ! i)"
proof -
  have "weighted_sum (map Num ws) (map Num xs) = mel_sum (map Num ws) (map Num xs)"
    by (simp add: mel_sum_weighted)
  also have "\<dots> = foldl (\<lambda>s i. jadd s (jmul (map Num ws ! i) (map Num xs ! i))) (Num 0)
                    [0..<min (length ws) (length xs)]"
    by (simp add: mel_sum_def)
  also have "\<dots> = Num (0 + (\<Sum>i<min (length ws) (length xs). ws ! i * xs ! i))"
    by (rule foldl_jadd_Num_cong[where f="\<lambda>i. jmul (map Num ws ! i) (map Num xs ! i)"]) simp
  finally show ?thesis by simp
qed

lemma length_createFilters:
  "length (createFilters sampleRate fftSize melBins fMin fMax) = melBins"
  "m < melBins \<Longrightarrow> length (createFilters sampleRate fftSize melBins fMin fMax ! m) = fftSize div 2 + 1"
  by (simp_all add: createFilters_def Let_def)

lemma MelFilterbank_new_fields:
  "mf_fftSize (MelFilterbank_new sampleRate fftSize melBins fMin fMax) = fftSize"
  "mf_melBins (MelFilterbank_new sampleRate fftSize melBins fMin fMax) = melBins"
  "length (mf_filters (MelFilterbank_new sampleRate fftSize melBins fMin fMax)) = melBins"
  "m < melBins \<Longrightarrow>
     length (mf_filters (MelFilterbank_new sampleRate fftSize melBins fMin fMax) ! m) = fftSize div 2 + 1"
  by (simp_all add: MelFilterbank_new_def Let_def length_createFilters)






section \<open>Properties of the feature extractor\<close>

lemma length_dct2 [simp]: "length (dct2 input count) = count"
  by (simp add: dct2_def Let_def)

lemma length_mfcc_of_mel [simp]: "length (mfcc_of_mel mel mfccCount) = mfccCount"
  by (simp add: mfcc_of_mel_def Let_def)

lemma foldl_jadd_Num0:
  assumes "\<And>i. i < n \<Longrightarrow> f i = Num (g i)"
  shows "foldl (\<lambda>s i. jadd s (f i)) (Num 0) [0..<n] = Num (\<Sum>i<n. g i)"
  using foldl_jadd_Num_cong[of n f g 0, OF assms] by simp





lemma computeMFCC_frames_succeeds:
  assumes "mf_melBins fb \<le> length (mf_filters fb)"
    and "\<forall>f \<in> set frames. length f = mf_fftSize fb div 2 + 1"
  shows "\<exists>out. computeMFCC_frames fb mfccCount frames acc = (fb, Inr out)"
  using assms(2)
proof (induction frames arbitrary: acc)
  case Nil
  then show ?case by simp
next
  case (Cons frame rest)
  have "MelFilterbank_apply fb frame
        = (fb, Inr (map (\<lambda>melIdx. mel_sum (mf_filters fb ! melIdx) frame) [0..<mf_melBins fb]))"
    using assms(1) Cons.prems by (simp add: MelFilterbank_apply_def Let_def)
  then show ?case using Cons by simp
qed






section \<open>Properties of the orchestrator\<close>

lemma nextPow2_2048: "nextPow2 2048 = 2048"
  using nextPow2_pow2[of 11] by simp

lemma computeSpectrogram_default_returns:
  "\<exists>r. computeSpectrogram samples sampleRate
          DSP_CONFIG_windowSize DSP_CONFIG_hopSize DSP_CONFIG_maxFrames = Some (Inr r)
       \<and> sg_sampleRate r = sampleRate
       \<and> (\<forall>f \<in> set (sg_data r). length f = 1025)"
proof -
  let ?pre = "preEmphasis samples"
  have ws: "0 < (2048::nat)" and hs: "0 < (512::nat)" by simp_all
  have c0: "int 0 \<le> frame_count (length ?pre) 2048 512 2000" by (simp add: frame_count_def)
  from spectrogram_loop_ok[OF ws hs c0 refl, of "[]"] obtain fs where fs:
    "spectrogram_loop ?pre (hannWindow 2048) 2048 512 2000 (nextPow2 2048) 0 [] = Some (Inr fs)"
    "\<forall>f \<in> set fs. length f = nextPow2 2048 div 2 + 1"
    by auto
  then show ?thesis
    by (simp add: computeSpectrogram_def Let_def DSP_CONFIG_windowSize_def DSP_CONFIG_hopSize_def
        DSP_CONFIG_maxFrames_def nextPow2_2048)
qed

lemma compute_spectrogram_case_emits:
  "\<exists>r. computeSpectrogram samples sampleRate
          DSP_CONFIG_windowSize DSP_CONFIG_hopSize DSP_CONFIG_maxFrames = Some (Inr r)
       \<and> compute_spectrogram_case samples sampleRate posted
          = Some (posted @ [PROGRESS ''Computing spectrogram'' (1 / 10),
                            PROGRESS ''Computing spectrogram'' (9 / 10),
                            SPECTROGRAM_COMPUTED (sg_data r) sampleRate])"
proof -
  from computeSpectrogram_default_returns[of samples sampleRate] obtain r where
    "computeSpectrogram samples sampleRate
          DSP_CONFIG_windowSize DSP_CONFIG_hopSize DSP_CONFIG_maxFrames = Some (Inr r)"
    "sg_sampleRate r = sampleRate" by blast
  then show ?thesis by (simp add: compute_spectrogram_case_def Let_def)
qed

lemma compute_mfcc_pca_case_emits:
  "\<exists>mfcc. compute_mfcc_pca_case samples sampleRate posted
          = Some (posted @ [PROGRESS ''Computing spectrogram'' (1 / 10),
                            PROGRESS ''Computing mel features'' (3 / 10),
                            PROGRESS ''Computing MFCC'' (5 / 10),
                            PROGRESS ''Computing PCA'' (8 / 10),
                            MFCC_PCA_COMPUTED (computePCA3D mfcc) mfcc])"
proof -
  from computeSpectrogram_default_returns[of samples sampleRate] obtain r where r:
    "computeSpectrogram samples sampleRate
          DSP_CONFIG_windowSize DSP_CONFIG_hopSize DSP_CONFIG_maxFrames = Some (Inr r)"
    "\<forall>f \<in> set (sg_data r). length f = 1025" by blast
  have fftSize: "(case sg_data r of [] \<Rightarrow> 2048
                  | f # _ \<Rightarrow> if length f \<noteq> 0 then (length f - 1) * 2 else 2048) = (2048::nat)"
    using r(2) by (cases "sg_data r") auto
  let ?fb = "MelFilterbank_default sampleRate 2048"
  have fb: "mf_melBins ?fb \<le> length (mf_filters ?fb)" "mf_fftSize ?fb = 2048"
    by (simp_all add: MelFilterbank_default_def MelFilterbank_new_fields)
  have "\<forall>f \<in> set (sg_data r). length f = mf_fftSize ?fb div 2 + 1"
    using r(2) fb(2) by simp
  from computeMFCC_frames_succeeds[OF fb(1) this, of DSP_CONFIG_mfccCount "[]"]
  obtain mfcc where "computeMFCC r ?fb DSP_CONFIG_mfccCount = (?fb, Inr mfcc)"
    by (auto simp: computeMFCC_def)
  then show ?thesis using r(1) fftSize
    by (simp add: compute_mfcc_pca_case_def Let_def)
qed

text \<open>The manifold handler posts what the feature extractor and the reducer compute.\<close>

lemma compute_mfcc_pca_case_result:
  "\<exists>r fb mfcc. computeSpectrogram samples sampleRate
          DSP_CONFIG_windowSize DSP_CONFIG_hopSize DSP_CONFIG_maxFrames = Some (Inr r)
       \<and> computeMFCC r (MelFilterbank_default sampleRate 2048) DSP_CONFIG_mfccCount
          = (fb, Inr mfcc)
       \<and> compute_mfcc_pca_case samples sampleRate posted
          = Some (posted @ [PROGRESS ''Computing spectrogram'' (1 / 10),
                            PROGRESS ''Computing mel features'' (3 / 10),
                            PROGRESS ''Computing MFCC'' (5 / 10),
                            PROGRESS ''Computing PCA'' (8 / 10),
                            MFCC_PCA_COMPUTED (computePCA3D mfcc) mfcc])"
proof -
  from computeSpectrogram_default_returns[of samples sampleRate] obtain r where r:
    "computeSpectrogram samples sampleRate
          DSP_CONFIG_windowSize DSP_CONFIG_hopSize DSP_CONFIG_maxFrames = Some (Inr r)"
    "\<forall>f \<in> set (sg_data r). length f = 1025" by blast
  have fftSize: "(case sg_data r of [] \<Rightarrow> 2048
                  | f # _ \<Rightarrow> if length f \<noteq> 0 then (length f - 1) * 2 else 2048) = (2048::nat)"
    using r(2) by (cases "sg_data r") auto
  let ?fb = "MelFilterbank_default sampleRate 2048"
  have fb: "mf_melBins ?fb \<le> length (mf_filters ?fb)" "mf_fftSize ?fb = 2048"
    by (simp_all add: MelFilterbank_default_def MelFilterbank_new_fields)
  have "\<forall>f \<in> set (sg_data r). length f = mf_fftSize ?fb div 2 + 1"
    using r(2) fb(2) by simp
  from computeMFCC_frames_succeeds[OF fb(1) this, of DSP_CONFIG_mfccCount "[]"]
  obtain mfcc where m: "computeMFCC r ?fb DSP_CONFIG_mfccCount = (?fb, Inr mfcc)"
    by (auto simp: computeMFCC_def)
  then have "compute_mfcc_pca_case samples sampleRate posted
          = Some (posted @ [PROGRESS ''Computing spectrogram'' (1 / 10),
                            PROGRESS ''Computing mel features'' (3 / 10),
                            PROGRESS ''Computing MFCC'' (5 / 10),
                            PROGRESS ''Computing PCA'' (8 / 10),
                            MFCC_PCA_COMPUTED (computePCA3D mfcc) mfcc])"
    using r(1) fftSize by (simp add: compute_mfcc_pca_case_def Let_def)
  with r(1) m show ?thesis by blast
qed

text \<open>A handler only appends to the posted responses, and every handler returns.\<close>

lemma onmessage_extends: "\<exists>out. onmessage message posted = Some (posted @ out)"
proof (cases message)
  case (COMPUTE_SPECTROGRAM samples sampleRate)
  then show ?thesis using compute_spectrogram_case_emits[of samples sampleRate posted] by auto
next
  case (COMPUTE_MFCC_PCA samples sampleRate)
  then show ?thesis using compute_mfcc_pca_case_emits[of samples sampleRate posted] by auto
qed simp_all

lemma worker_run_extends: "\<exists>out. worker_run queue posted = Some (posted @ out)"
proof (induction queue arbitrary: posted)
  case Nil
  then show ?case by simp
next
  case (Cons message queue)
  obtain out1 where o1: "onmessage message posted = Some (posted @ out1)"
    using onmessage_extends by blast
  obtain out2 where "worker_run queue (posted @ out1) = Some ((posted @ out1) @ out2)"
    using Cons.IH by blast
  then show ?case using o1 by simp
qed

lemma worker_run_append:
  "worker_run (q1 @ q2) posted =
     (case worker_run q1 posted of None \<Rightarrow> None | Some posted' \<Rightarrow> worker_run q2 posted')"
  by (induction q1 arbitrary: posted) (auto split: option.splits)

lemma worker_run_emits:
  assumes "message \<in> set queue" "\<And>p. \<exists>out. onmessage message p = Some (p @ out @ [response])"
  shows "\<exists>out. worker_run queue posted = Some out \<and> response \<in> set out"
proof -
  from assms(1) obtain q1 q2 where q: "queue = q1 @ message # q2" by (auto simp: in_set_conv_decomp)
  obtain o1 where o1: "worker_run q1 posted = Some (posted @ o1)" using worker_run_extends by blast
  obtain o2 where o2: "onmessage message (posted @ o1) = Some ((posted @ o1) @ o2 @ [response])"
    using assms(2) by blast
  obtain o3 where o3: "worker_run q2 ((posted @ o1) @ o2 @ [response])
                       = Some (((posted @ o1) @ o2 @ [response]) @ o3)"
    using worker_run_extends by blast
  show ?thesis using q o1 o2 o3 by (simp add: worker_run_append)
qed

text \<open>
  Claim C8, as the code has it. A cancellation request suppresses nothing in the worker:
  for every queue of messages, with cancellation requests at any place in it, the worker
  posts, for every spectrogram request of the queue, the spectrogram computed from the
  samples of that request, and for every manifold request of the queue, the features
  computed from the spectrogram of the samples of that request together with the points
  that the reducer computes from these features.
\<close>

theorem cancel_does_not_suppress_results:
  "(COMPUTE_SPECTROGRAM samples sampleRate \<in> set queue \<longrightarrow>
      (\<exists>out r. worker_run queue posted = Some out
         \<and> computeSpectrogram samples sampleRate
              DSP_CONFIG_windowSize DSP_CONFIG_hopSize DSP_CONFIG_maxFrames = Some (Inr r)
         \<and> SPECTROGRAM_COMPUTED (sg_data r) sampleRate \<in> set out))
   \<and> (COMPUTE_MFCC_PCA samples sampleRate \<in> set queue \<longrightarrow>
      (\<exists>out r fb mfcc. worker_run queue posted = Some out
         \<and> computeSpectrogram samples sampleRate
              DSP_CONFIG_windowSize DSP_CONFIG_hopSize DSP_CONFIG_maxFrames = Some (Inr r)
         \<and> computeMFCC r (MelFilterbank_default sampleRate 2048) DSP_CONFIG_mfccCount
            = (fb, Inr mfcc)
         \<and> MFCC_PCA_COMPUTED (computePCA3D mfcc) mfcc \<in> set out))"
proof (intro conjI impI)
  assume m: "COMPUTE_SPECTROGRAM samples sampleRate \<in> set queue"
  obtain r where r: "computeSpectrogram samples sampleRate
          DSP_CONFIG_windowSize DSP_CONFIG_hopSize DSP_CONFIG_maxFrames = Some (Inr r)"
    using computeSpectrogram_default_returns by blast
  have "\<exists>out. onmessage (COMPUTE_SPECTROGRAM samples sampleRate) p
          = Some (p @ out @ [SPECTROGRAM_COMPUTED (sg_data r) sampleRate])" for p
    using compute_spectrogram_case_emits[of samples sampleRate p] r by auto
  from worker_run_emits[OF m this] r
  show "\<exists>out r. worker_run queue posted = Some out
         \<and> computeSpectrogram samples sampleRate
              DSP_CONFIG_windowSize DSP_CONFIG_hopSize DSP_CONFIG_maxFrames = Some (Inr r)
         \<and> SPECTROGRAM_COMPUTED (sg_data r) sampleRate \<in> set out" by blast
next
  assume m: "COMPUTE_MFCC_PCA samples sampleRate \<in> set queue"
  obtain r fb mfcc where r: "computeSpectrogram samples sampleRate
          DSP_CONFIG_windowSize DSP_CONFIG_hopSize DSP_CONFIG_maxFrames = Some (Inr r)"
    and f: "computeMFCC r (MelFilterbank_default sampleRate 2048) DSP_CONFIG_mfccCount
            = (fb, Inr mfcc)"
    using compute_mfcc_pca_case_result[of samples sampleRate "[]"] by blast
  have "\<exists>out. onmessage (COMPUTE_MFCC_PCA samples sampleRate) p
          = Some (p @ out @ [MFCC_PCA_COMPUTED (computePCA3D mfcc) mfcc])" for p
  proof -
    obtain r' fb' mfcc' where r': "computeSpectrogram samples sampleRate
          DSP_CONFIG_windowSize DSP_CONFIG_hopSize DSP_CONFIG_maxFrames = Some (Inr r')"
      and f': "computeMFCC r' (MelFilterbank_default sampleRate 2048) DSP_CONFIG_mfccCount
            = (fb', Inr mfcc')"
      and e': "compute_mfcc_pca_case samples sampleRate p
          = Some (p @ [PROGRESS ''Computing spectrogram'' (1 / 10),
                            PROGRESS ''Computing mel features'' (3 / 10),
                            PROGRESS ''Computing MFCC'' (5 / 10),
                            PROGRESS ''Computing PCA'' (8 / 10),
                            MFCC_PCA_COMPUTED (computePCA3D mfcc') mfcc'])"
      using compute_mfcc_pca_case_result[of samples sampleRate p] by blast
    have "r' = r" using r r' by simp
    then have "mfcc' = mfcc" using f f' by simp
    then show ?thesis using e' by auto
  qed
  from worker_run_emits[OF m this] r f
  show "\<exists>out r fb mfcc. worker_run queue posted = Some out
         \<and> computeSpectrogram samples sampleRate
              DSP_CONFIG_windowSize DSP_CONFIG_hopSize DSP_CONFIG_maxFrames = Some (Inr r)
         \<and> computeMFCC r (MelFilterbank_default sampleRate 2048) DSP_CONFIG_mfccCount
            = (fb, Inr mfcc)
         \<and> MFCC_PCA_COMPUTED (computePCA3D mfcc) mfcc \<in> set out" by blast
qed

theorem cancel_does_not_suppress_results_witness:
  "COMPUTE_SPECTROGRAM [] 44100 \<in> set [CANCEL, COMPUTE_SPECTROGRAM [] 44100, CANCEL]
   \<and> (\<exists>out (r :: SpectrogramResult).
         worker_run [CANCEL, COMPUTE_SPECTROGRAM [] 44100, CANCEL] [] = Some out
         \<and> computeSpectrogram [] 44100
              DSP_CONFIG_windowSize DSP_CONFIG_hopSize DSP_CONFIG_maxFrames = Some (Inr r)
         \<and> SPECTROGRAM_COMPUTED (sg_data r) 44100 \<in> set out)
   \<and> COMPUTE_MFCC_PCA [] 44100 \<in> set [COMPUTE_MFCC_PCA [] 44100, CANCEL]
   \<and> (\<exists>out (r :: SpectrogramResult) fb mfcc.
         worker_run [COMPUTE_MFCC_PCA [] 44100, CANCEL] [] = Some out
         \<and> computeSpectrogram [] 44100
              DSP_CONFIG_windowSize DSP_CONFIG_hopSize DSP_CONFIG_maxFrames = Some (Inr r)
         \<and> computeMFCC r (MelFilterbank_default 44100 2048) DSP_CONFIG_mfccCount
            = (fb, Inr mfcc)
         \<and> MFCC_PCA_COMPUTED (computePCA3D mfcc) mfcc \<in> set out)"
proof -
  have m: "COMPUTE_SPECTROGRAM [] 44100 \<in> set [CANCEL, COMPUTE_SPECTROGRAM [] 44100, CANCEL]"
    by simp
  have m2: "COMPUTE_MFCC_PCA [] 44100 \<in> set [COMPUTE_MFCC_PCA [] 44100, CANCEL]"
    by simp
  from cancel_does_not_suppress_results[of "[]" 44100
         "[CANCEL, COMPUTE_SPECTROGRAM [] 44100, CANCEL]" "[]"] m
  have a: "\<exists>out (r :: SpectrogramResult).
         worker_run [CANCEL, COMPUTE_SPECTROGRAM [] 44100, CANCEL] [] = Some out
         \<and> computeSpectrogram [] 44100
              DSP_CONFIG_windowSize DSP_CONFIG_hopSize DSP_CONFIG_maxFrames = Some (Inr r)
         \<and> SPECTROGRAM_COMPUTED (sg_data r) 44100 \<in> set out" by blast
  from cancel_does_not_suppress_results[of "[]" 44100
         "[COMPUTE_MFCC_PCA [] 44100, CANCEL]" "[]"] m2
  have b: "\<exists>out (r :: SpectrogramResult) fb mfcc.
         worker_run [COMPUTE_MFCC_PCA [] 44100, CANCEL] [] = Some out
         \<and> computeSpectrogram [] 44100
              DSP_CONFIG_windowSize DSP_CONFIG_hopSize DSP_CONFIG_maxFrames = Some (Inr r)
         \<and> computeMFCC r (MelFilterbank_default 44100 2048) DSP_CONFIG_mfccCount
            = (fb, Inr mfcc)
         \<and> MFCC_PCA_COMPUTED (computePCA3D mfcc) mfcc \<in> set out" by blast
  from m m2 a b show ?thesis by blast
qed

text \<open>
  Claim C8, as stated, fails: a cancellation request that arrives while a run is in
  flight waits in the queue behind it, and the run posts its spectrogram result.
\<close>

theorem cancel_during_run_result_emitted:
  "worker_run [COMPUTE_SPECTROGRAM [Num 1] 44100, CANCEL] []
   = Some [PROGRESS ''Computing spectrogram'' (1 / 10),
           PROGRESS ''Computing spectrogram'' (9 / 10),
           SPECTROGRAM_COMPUTED [] 44100]"
  by (simp add: compute_spectrogram_case_def computeSpectrogram_def Let_def
      spectrogram_loop.simps nFrames_bound_def jmin_def
      DSP_CONFIG_windowSize_def DSP_CONFIG_hopSize_def DSP_CONFIG_maxFrames_def)

text \<open>
  Claim C10. The handler of a cancellation request leaves the posted responses as they
  are, so it changes no state and emits nothing; a queue with a cancellation request in
  it produces what the queue without it produces; every queue is worked off to its end,
  and every compute request posts its progress and then its result.
\<close>

theorem cancel_is_noop:
  "onmessage CANCEL posted = Some posted
   \<and> worker_run (before @ CANCEL # after) posted = worker_run (before @ after) posted
   \<and> worker_run (filter (\<lambda>m. m \<noteq> CANCEL) queue) posted = worker_run queue posted
   \<and> (\<exists>out. worker_run queue posted = Some (posted @ out))
   \<and> (\<exists>r. computeSpectrogram samples sampleRate
              DSP_CONFIG_windowSize DSP_CONFIG_hopSize DSP_CONFIG_maxFrames = Some (Inr r)
          \<and> onmessage (COMPUTE_SPECTROGRAM samples sampleRate) posted
            = Some (posted @ [PROGRESS ''Computing spectrogram'' (1 / 10),
                              PROGRESS ''Computing spectrogram'' (9 / 10),
                              SPECTROGRAM_COMPUTED (sg_data r) sampleRate]))
   \<and> (\<exists>mfcc. onmessage (COMPUTE_MFCC_PCA samples sampleRate) posted
            = Some (posted @ [PROGRESS ''Computing spectrogram'' (1 / 10),
                              PROGRESS ''Computing mel features'' (3 / 10),
                              PROGRESS ''Computing MFCC'' (5 / 10),
                              PROGRESS ''Computing PCA'' (8 / 10),
                              MFCC_PCA_COMPUTED (computePCA3D mfcc) mfcc]))"
proof -
  have a: "worker_run (before @ CANCEL # after) posted = worker_run (before @ after) posted"
    by (simp add: worker_run_append split: option.splits)
  have b: "worker_run (filter (\<lambda>m. m \<noteq> CANCEL) queue) p = worker_run queue p" for p
    by (induction queue arbitrary: p) (auto split: option.splits)
  show ?thesis
    using a b worker_run_extends[of queue posted]
      compute_spectrogram_case_emits[of samples sampleRate posted]
      compute_mfcc_pca_case_emits[of samples sampleRate posted]
    by simp
qed


section \<open>Properties of the dimensionality reducer\<close>

lemma jgt_Num [simp]: "jgt (Num a) (Num b) = (b < a)"
  by (simp add: jgt_def)

lemma jsub_Num [simp]: "jsub (Num a) (Num b) = Num (a - b)"
  by (simp add: jsub_def)

lemma length_pca_projected [simp]: "length (pca_projected frames) = length frames"
  by (simp add: pca_projected_def Let_def)

lemma length_pca_projected_row [simp]:
  "t < length frames \<Longrightarrow> length (pca_projected frames ! t) = 3"
  by (simp add: pca_projected_def Let_def)

lemma normalize_axis_shape:
  assumes "length projected = T" "\<forall>t<T. length (projected ! t) = 3"
  shows "length (normalize_axis T projected pc) = T
         \<and> (\<forall>t<T. length (normalize_axis T projected pc ! t) = 3)"
  using assms by (simp add: normalize_axis_def Let_def)

lemma computePCA3D_locals_fields [simp]:
  "pl_featureCount (computePCA3D_locals frames) = length (frames ! 0)"
  "pl_timeSteps (computePCA3D_locals frames) = length frames"
  "pl_means (computePCA3D_locals frames)
     = pca_means (concat frames) (length frames) (length (frames ! 0))"
  "pl_matrix (computePCA3D_locals frames) = pca_centered frames"
  "pl_scale (computePCA3D_locals frames) = pca_scale (length frames)"
  "pl_covariance (computePCA3D_locals frames)
     = pca_covariance (pca_centered frames) (length frames) (length (frames ! 0))"
  "pl_components (computePCA3D_locals frames)
     = computeTopEigenvectors
         (pca_covariance (pca_centered frames) (length frames) (length (frames ! 0)))
         (length (frames ! 0)) 3"
  "pl_projected (computePCA3D_locals frames) = pca_projected frames"
  by (simp_all add: computePCA3D_locals_def Let_def)

lemma computePCA3D_unfold:
  "mfcc \<noteq> [] \<Longrightarrow>
   computePCA3D mfcc
   = normalize_axis (length mfcc)
       (normalize_axis (length mfcc) (normalize_axis (length mfcc) (pca_projected mfcc) 0) 1) 2"
proof -
  assume "mfcc \<noteq> []"
  moreover have "[0..<3] = [0, 1, 2]" by (simp add: upt_rec)
  ultimately show ?thesis by (simp add: computePCA3D_def Let_def)
qed

lemma computePCA3D_shape:
  "length (computePCA3D mfcc) = length mfcc
   \<and> (\<forall>t<length mfcc. length (computePCA3D mfcc ! t) = 3)"
proof (cases "length mfcc = 0")
  case True
  then show ?thesis by (simp add: computePCA3D_def)
next
  case False
  let ?T = "length mfcc"
  let ?P0 = "pca_projected mfcc"
  have s0: "length ?P0 = ?T \<and> (\<forall>t<?T. length (?P0 ! t) = 3)" by simp
  have step: "length (normalize_axis ?T P pc) = ?T \<and> (\<forall>t<?T. length (normalize_axis ?T P pc ! t) = 3)"
    if "length P = ?T \<and> (\<forall>t<?T. length (P ! t) = 3)" for P pc
    using that normalize_axis_shape[of P ?T pc] by blast
  have "computePCA3D mfcc
             = normalize_axis ?T (normalize_axis ?T (normalize_axis ?T ?P0 0) 1) 2"
    using False by (simp add: computePCA3D_unfold)
  moreover note s1 = step[OF s0, of 0]
  note s2 = step[OF s1, of 1]
  note s3 = step[OF s2, of 2]
  ultimately show ?thesis using s3 by simp
qed

lemma finite_num_iff: "finite_num x \<longleftrightarrow> (\<exists>r. x = Num r)"
  by (cases x) auto

lemma index_bound: "i < (n::nat) \<Longrightarrow> j < n \<Longrightarrow> i * n + j < n * n"
proof -
  assume a: "i < n" "j < n"
  then have "i * n + j < i * n + n" by simp
  also have "\<dots> = Suc i * n" by simp
  also have "\<dots> \<le> n * n" using a(1) by (metis Suc_leI mult_le_mono1)
  finally show ?thesis .
qed

lemma index_bound2: "t < (T::nat) \<Longrightarrow> f < F \<Longrightarrow> t * F + f < T * F"
proof -
  assume a: "t < T" "f < F"
  then have "t * F + f < t * F + F" by simp
  also have "\<dots> = Suc t * F" by simp
  also have "\<dots> \<le> T * F" using a(1) by (metis Suc_leI mult_le_mono1)
  finally show ?thesis .
qed

lemma concat_rect:
  assumes "\<forall>f \<in> set frames. length f = F"
  shows "length (concat frames) = length frames * F"
    and "t < length frames \<Longrightarrow> f < F \<Longrightarrow> concat frames ! (t * F + f) = frames ! t ! f"
  using assms
proof (induction frames arbitrary: t)
  case Nil
  { case 1 show ?case by simp }
  { case 2 then show ?case by simp }
next
  case (Cons a frames)
  { case 1 then show ?case using Cons.IH(1) by simp }
  { case 2
    then show ?case using Cons.IH(2)[of "t - 1"]
      by (cases t) (auto simp: nth_append) }
qed

lemma pca_scale_Num: "pca_scale T = Num (1 / real_of_int (max 1 (int T - 1)))"
proof -
  have "real_of_int (max 1 (int T - 1)) \<noteq> 0" by (simp add: max_def)
  then show ?thesis unfolding pca_scale_def by simp
qed

lemma pca_means_nth:
  "f < F \<Longrightarrow> pca_means m T F ! f
     = fround (jdiv (foldl (\<lambda>acc t. fround (jadd acc (elem m (t * F + f)))) (Num 0) [0..<T])
                    (Num (real T)))"
  by (simp add: pca_means_def)

lemma pca_centered_nth:
  "i < length frames * length (frames ! 0) \<Longrightarrow>
   pca_centered frames ! i
   = jsub (elem (concat frames) i)
          (pca_means (concat frames) (length frames) (length (frames ! 0)) ! (i mod length (frames ! 0)))"
  by (simp add: pca_centered_def Let_def pca_center_def)

lemma length_pca_centered: "length (pca_centered frames) = length frames * length (frames ! 0)"
  by (simp add: pca_centered_def Let_def pca_center_def)

text \<open>The normalisation loop acts on every axis by itself.\<close>

lemma axis_nth: "t < length P \<Longrightarrow> axis pc P ! t = P ! t ! pc"
  by (simp add: axis_def)

lemma length_axis [simp]: "length (axis pc P) = length P"
  by (simp add: axis_def)

lemma axis_mean_col:
  assumes "length P = T"
  shows "axis_mean P pc T = jdiv (foldl (\<lambda>mean t. jadd mean (axis pc P ! t)) (Num 0) [0..<T]) (Num (of_nat T))"
proof -
  have "foldl (\<lambda>mean t. jadd mean (P ! t ! pc)) (Num 0) [0..<T]
        = foldl (\<lambda>mean t. jadd mean (axis pc P ! t)) (Num 0) [0..<T]"
    by (rule foldl_cong) (use assms in \<open>simp_all add: axis_nth\<close>)
  then show ?thesis by (simp add: axis_mean_def)
qed

lemma axis_std_col:
  assumes "length P = T"
  shows "axis_std P pc T =
     jsqrt (jdiv (foldl (\<lambda>variance t. jadd variance (jmul (jsub (axis pc P ! t) (axis_mean P pc T))
                                                            (jsub (axis pc P ! t) (axis_mean P pc T))))
                        (Num 0) [0..<T])
                 (Num (of_nat T)))"
proof -
  have "foldl (\<lambda>variance t. let diff = jsub (P ! t ! pc) (axis_mean P pc T)
                             in jadd variance (jmul diff diff)) (Num 0) [0..<T]
        = foldl (\<lambda>variance t. jadd variance (jmul (jsub (axis pc P ! t) (axis_mean P pc T))
                                                    (jsub (axis pc P ! t) (axis_mean P pc T))))
                (Num 0) [0..<T]"
    by (rule foldl_cong) (use assms in \<open>simp_all add: axis_nth Let_def\<close>)
  then show ?thesis by (simp add: axis_std_def Let_def)
qed

lemma normalize_axis_axis:
  assumes "length P = T" "\<forall>t<T. length (P ! t) = 3" "pc < 3" "pc' < 3"
  shows "axis pc' (normalize_axis T P pc)
         = (if pc' = pc then normalize_column T (axis pc P) else axis pc' P)"
proof (cases "jgt (axis_std P pc T) (Num (1 / 10 ^ 6))")
  case False
  then have "normalize_axis T P pc = P" by (simp add: normalize_axis_def Let_def)
  moreover have "normalize_column T (axis pc P) = axis pc P"
    using False axis_std_col[OF assms(1), of pc] axis_mean_col[OF assms(1), of pc]
    by (simp add: normalize_column_def Let_def)
  ultimately show ?thesis by simp
next
  case True
  let ?mean = "axis_mean P pc T" and ?std = "axis_std P pc T"
  have N: "normalize_axis T P pc
           = map (\<lambda>t. (P ! t)[pc := jdiv (jsub (P ! t ! pc) ?mean) ?std]) [0..<T]"
    using True by (simp add: normalize_axis_def Let_def)
  have C: "normalize_column T (axis pc P) = map (\<lambda>t. jdiv (jsub (axis pc P ! t) ?mean) ?std) [0..<T]"
    using True axis_std_col[OF assms(1), of pc] axis_mean_col[OF assms(1), of pc]
    by (simp add: normalize_column_def Let_def)
  show ?thesis
  proof (rule nth_equalityI)
    show "length (axis pc' (normalize_axis T P pc))
          = length (if pc' = pc then normalize_column T (axis pc P) else axis pc' P)"
      using assms(1) by (simp add: N C)
  next
    fix t assume "t < length (axis pc' (normalize_axis T P pc))"
    then have t: "t < T" by (simp add: N)
    have "axis pc' (normalize_axis T P pc) ! t = ((P ! t)[pc := jdiv (jsub (P ! t ! pc) ?mean) ?std]) ! pc'"
      using t by (simp add: N axis_def)
    also have "\<dots> = (if pc' = pc then jdiv (jsub (P ! t ! pc) ?mean) ?std else P ! t ! pc')"
      using assms t by (simp add: nth_list_update)
    also have "\<dots> = (if pc' = pc then normalize_column T (axis pc P) else axis pc' P) ! t"
      using t assms(1) by (simp add: C axis_nth)
    finally show "axis pc' (normalize_axis T P pc) ! t
          = (if pc' = pc then normalize_column T (axis pc P) else axis pc' P) ! t" .
  qed
qed

lemma computePCA3D_axis:
  assumes "mfcc \<noteq> []" "pc < 3"
  shows "axis pc (computePCA3D mfcc) = normalize_column (length mfcc) (axis pc (pca_projected mfcc))"
proof -
  let ?T = "length mfcc"
  let ?P0 = "pca_projected mfcc"
  let ?P1 = "normalize_axis ?T ?P0 0"
  let ?P2 = "normalize_axis ?T ?P1 1"
  let ?P3 = "normalize_axis ?T ?P2 2"
  have s0: "length ?P0 = ?T" "\<forall>t<?T. length (?P0 ! t) = 3" by simp_all
  have s1: "length ?P1 = ?T" "\<forall>t<?T. length (?P1 ! t) = 3"
    using normalize_axis_shape[OF s0, of 0] by simp_all
  have s2: "length ?P2 = ?T" "\<forall>t<?T. length (?P2 ! t) = 3"
    using normalize_axis_shape[OF s1, of 1] by simp_all
  have c: "computePCA3D mfcc = ?P3" using assms(1) by (simp add: computePCA3D_unfold)
  have three: "(0::nat) < 3" "(1::nat) < 3" "(2::nat) < 3" by simp_all
  note a0 = normalize_axis_axis[OF s0 three(1) assms(2)]
  note a1 = normalize_axis_axis[OF s1 three(2) assms(2)]
  note a2 = normalize_axis_axis[OF s2 three(3) assms(2)]
  note b1 = normalize_axis_axis[OF s0 three(1) three(2)]
  note b2 = normalize_axis_axis[OF s0 three(1) three(3)]
  note b3 = normalize_axis_axis[OF s1 three(2) three(3)]
  consider "pc = 0" | "pc = 1" | "pc = 2" using assms(2) by linarith
  then show ?thesis
  proof cases
    case 1 then show ?thesis using a0 a1 a2 c by simp
  next
    case 2 then show ?thesis using a0 a1 a2 b1 c by simp
  next
    case 3 then show ?thesis using a0 a1 a2 b2 b3 c by simp
  qed
qed

lemma normalize_column_finite:
  assumes "xs \<noteq> []"
  shows "normalize_column (length xs) (map Num xs)
         = (if 1 / 10 ^ 6 < std_of xs then map Num (zscore xs) else map Num xs)"
proof -
  let ?T = "length xs"
  have T: "real ?T \<noteq> 0" using assms by simp
  have m: "foldl (\<lambda>mean t. jadd mean (map Num xs ! t)) (Num 0) [0..<?T] = Num (\<Sum>i<?T. xs ! i)"
    by (rule foldl_jadd_Num0[where f="\<lambda>t. map Num xs ! t"]) simp
  have mean: "jdiv (foldl (\<lambda>mean t. jadd mean (map Num xs ! t)) (Num 0) [0..<?T]) (Num (real ?T))
              = Num (mean_of xs)"
    using T by (simp add: m mean_of_def)
  let ?V = "\<Sum>i<?T. (xs ! i - mean_of xs) * (xs ! i - mean_of xs)"
  have v: "foldl (\<lambda>variance t. jadd variance (jmul (jsub (map Num xs ! t) (Num (mean_of xs)))
                                                   (jsub (map Num xs ! t) (Num (mean_of xs)))))
                 (Num 0) [0..<?T] = Num ?V"
    by (rule foldl_jadd_Num0[where f="\<lambda>t. jmul (jsub (map Num xs ! t) (Num (mean_of xs)))
                                               (jsub (map Num xs ! t) (Num (mean_of xs)))"]) simp
  have V0: "0 \<le> ?V" by (rule sum_nonneg) simp
  then have "\<not> ?V / real ?T < 0" by (simp add: not_less divide_nonneg_nonneg)
  then have std: "jsqrt (jdiv (Num ?V) (Num (real ?T))) = Num (std_of xs)"
    using T by (simp add: std_of_def)
  have z: "map (\<lambda>t. jdiv (jsub (map Num xs ! t) (Num (mean_of xs))) (Num (std_of xs))) [0..<?T]
           = map Num (zscore xs)" if "1 / 10 ^ 6 < std_of xs"
  proof (rule nth_equalityI)
    show "length (map (\<lambda>t. jdiv (jsub (map Num xs ! t) (Num (mean_of xs))) (Num (std_of xs))) [0..<?T])
          = length (map Num (zscore xs))" by (simp add: zscore_def)
  next
    fix t assume "t < length (map (\<lambda>t. jdiv (jsub (map Num xs ! t) (Num (mean_of xs))) (Num (std_of xs))) [0..<?T])"
    then have t: "t < ?T" by simp
    have "std_of xs \<noteq> 0" using that by auto
    then show "map (\<lambda>t. jdiv (jsub (map Num xs ! t) (Num (mean_of xs))) (Num (std_of xs))) [0..<?T] ! t
               = map Num (zscore xs) ! t"
      using t by (simp add: zscore_def)
  qed
  show ?thesis
    unfolding normalize_column_def Let_def mean v std
    using z by simp
qed

text \<open>The z-score of a sequence has mean 0 and standard deviation 1.\<close>

lemma zscore_stats:
  assumes "xs \<noteq> []" "0 < std_of xs"
  shows "mean_of (zscore xs) = 0" "std_of (zscore xs) = 1"
proof -
  let ?T = "length xs" and ?m = "mean_of xs" and ?s = "std_of xs"
  have T: "0 < real ?T" using assms(1) by simp
  have s: "?s \<noteq> 0" using assms(2) by simp
  have len: "length (zscore xs) = ?T" by (simp add: zscore_def)
  have nth: "zscore xs ! i = (xs ! i - ?m) / ?s" if "i < ?T" for i
    using that by (simp add: zscore_def)
  have sum_m: "(\<Sum>i<?T. xs ! i) = real ?T * ?m" using T by (simp add: mean_of_def)
  have "(\<Sum>i<?T. zscore xs ! i) = (\<Sum>i<?T. (xs ! i - ?m) / ?s)"
    by (rule sum.cong) (simp_all add: nth)
  also have "\<dots> = ((\<Sum>i<?T. xs ! i) - real ?T * ?m) / ?s"
    by (simp add: sum_divide_distrib[symmetric] sum_subtractf)
  also have "\<dots> = 0" using sum_m by simp
  finally have z: "(\<Sum>i<?T. zscore xs ! i) = 0" .
  then show mz: "mean_of (zscore xs) = 0" by (simp add: mean_of_def len)
  let ?V = "\<Sum>i<?T. (xs ! i - ?m) * (xs ! i - ?m)"
  have V0: "0 \<le> ?V / real ?T" using T by (intro divide_nonneg_nonneg sum_nonneg) simp_all
  have s2: "?s * ?s = ?V / real ?T"
    unfolding std_of_def using V0 by (simp only: real_sqrt_mult_self abs_of_nonneg)
  have "(\<Sum>i<?T. (zscore xs ! i - 0) * (zscore xs ! i - 0))
        = (\<Sum>i<?T. (xs ! i - ?m) * (xs ! i - ?m) / (?s * ?s))"
    by (rule sum.cong) (simp_all add: nth)
  also have "\<dots> = ?V / (?s * ?s)" by (simp add: sum_divide_distrib[symmetric])
  finally have "(\<Sum>i<?T. (zscore xs ! i - 0) * (zscore xs ! i - 0)) / real ?T
                = (?V / real ?T) / (?s * ?s)" by simp
  also have "\<dots> = (?s * ?s) / (?s * ?s)" by (simp only: s2)
  also have "\<dots> = 1" using s by simp
  finally have one: "(\<Sum>i<?T. (zscore xs ! i - 0) * (zscore xs ! i - 0)) / real ?T = 1" .
  have "std_of (zscore xs)
        = sqrt ((\<Sum>i<?T. (zscore xs ! i - 0) * (zscore xs ! i - 0)) / real ?T)"
    by (simp only: std_of_def len mz)
  also have "\<dots> = sqrt 1" by (simp only: one)
  finally show "std_of (zscore xs) = 1" by simp
qed

lemma foldl_jadd_zero:
  assumes "\<And>i. i < n \<Longrightarrow> f i = Num 0"
  shows "foldl (\<lambda>s i. jadd s (f i)) (Num 0) [0..<n] = Num 0"
  using foldl_jadd_Num0[of n f "\<lambda>_. 0", OF assms] by simp

lemma is_f32_Num: "is_f32 x \<Longrightarrow> \<exists>r. x = Num r \<and> fround (Num r) = Num r"
  by (cases x) (simp_all add: is_f32_def)

lemma is_f32_0 [simp]: "is_f32 (Num 0)" and is_f32_1 [simp]: "is_f32 (Num 1)"
  by (simp_all add: is_f32_def)

lemma foldl_fround_zero:
  assumes "\<And>j. j < m \<Longrightarrow> h j = Num 0"
  shows "foldl (\<lambda>acc j. fround (jadd acc (h j))) (Num 0) [0..<m] = Num 0"
  using assms by (induction m) simp_all

text \<open>Orthogonalising against zero vectors changes nothing.\<close>

lemma orthogonalize_zero:
  assumes "length vec = n" "\<forall>i<n. is_f32 (vec ! i)"
    "\<forall>p<pcIdx. components ! p = replicate n (Num 0)"
  shows "orthogonalize components pcIdx n vec = vec"
  using assms(3)
proof (induction pcIdx)
  case 0
  then show ?case by (simp add: orthogonalize_def)
next
  case (Suc k)
  have prev: "orthogonalize components k n vec = vec" using Suc by simp
  have ck: "components ! k = replicate n (Num 0)" using Suc.prems by simp
  have dot: "dot_product n vec (replicate n (Num 0)) = Num 0"
    unfolding dot_product_def
  proof (rule foldl_jadd_zero[where f="\<lambda>i. jmul (vec ! i) (replicate n (Num 0) ! i)"])
    fix i assume "i < n"
    then show "jmul (vec ! i) (replicate n (Num 0) ! i) = Num 0"
      using is_f32_Num[of "vec ! i"] assms(2) by auto
  qed
  have "map (\<lambda>i. fround (jsub (vec ! i) (jmul (Num 0) (replicate n (Num 0) ! i)))) [0..<n] = vec"
  proof (rule nth_equalityI)
    show "length (map (\<lambda>i. fround (jsub (vec ! i) (jmul (Num 0) (replicate n (Num 0) ! i)))) [0..<n])
          = length vec" using assms(1) by simp
  next
    fix i assume "i < length (map (\<lambda>i. fround (jsub (vec ! i) (jmul (Num 0) (replicate n (Num 0) ! i)))) [0..<n])"
    then have i: "i < n" by simp
    then show "map (\<lambda>i. fround (jsub (vec ! i) (jmul (Num 0) (replicate n (Num 0) ! i)))) [0..<n] ! i
               = vec ! i"
      using is_f32_Num[of "vec ! i"] assms(2) by auto
  qed
  then show ?case
    using prev by (simp add: orthogonalize_def Let_def ck dot[unfolded dot_product_def] dot_product_def)
qed

lemma funpow_fixed: "f x = x \<Longrightarrow> (f ^^ k) x = x"
  by (induction k) simp_all

lemma power_round_zero:
  assumes "\<forall>i<n * n. covariance ! i = Num 0" "length vec = n" "\<forall>i<n. finite_num (vec ! i)"
    "\<forall>p<pcIdx. components ! p = replicate n (Num 0)"
  shows "power_round covariance n components pcIdx vec = replicate n (Num 0)"
proof -
  have new: "map (\<lambda>i. foldl (\<lambda>acc j. fround (jadd acc (jmul (covariance ! (i * n + j)) (vec ! j))))
                              (Num 0) [0..<n]) [0..<n] = replicate n (Num 0)"
  proof (rule nth_equalityI)
    show "length (map (\<lambda>i. foldl (\<lambda>acc j. fround (jadd acc (jmul (covariance ! (i * n + j)) (vec ! j))))
                              (Num 0) [0..<n]) [0..<n]) = length (replicate n (Num 0))" by simp
  next
    fix i assume "i < length (map (\<lambda>i. foldl (\<lambda>acc j. fround (jadd acc (jmul (covariance ! (i * n + j)) (vec ! j))))
                              (Num 0) [0..<n]) [0..<n])"
    then have i: "i < n" by simp
    have "foldl (\<lambda>acc j. fround (jadd acc (jmul (covariance ! (i * n + j)) (vec ! j)))) (Num 0) [0..<n]
          = Num 0"
    proof (rule foldl_fround_zero[where h="\<lambda>j. jmul (covariance ! (i * n + j)) (vec ! j)"])
      fix j assume j: "j < n"
      have "covariance ! (i * n + j) = Num 0" using assms(1) index_bound[OF i j] by simp
      moreover obtain r where "vec ! j = Num r" using assms(3) j by (auto simp: finite_num_iff)
      ultimately show "jmul (covariance ! (i * n + j)) (vec ! j) = Num 0" by simp
    qed
    then show "map (\<lambda>i. foldl (\<lambda>acc j. fround (jadd acc (jmul (covariance ! (i * n + j)) (vec ! j))))
                              (Num 0) [0..<n]) [0..<n] ! i = replicate n (Num 0) ! i"
      using i by simp
  qed
  have norm: "foldl (\<lambda>norm i. jadd norm (jmul (replicate n (Num 0) ! i) (replicate n (Num 0) ! i)))
                    (Num 0) [0..<n] = Num 0"
    by (rule foldl_jadd_zero[where f="\<lambda>i. jmul (replicate n (Num 0) ! i) (replicate n (Num 0) ! i)"])
       simp
  have o: "orthogonalize components pcIdx n (replicate n (Num 0)) = replicate n (Num 0)"
    by (rule orthogonalize_zero) (use assms(4) in simp_all)
  show ?thesis
    unfolding power_round_def Let_def new norm using o by simp
qed

lemma eigenvector_zero:
  assumes "\<forall>i<n * n. covariance ! i = Num 0"
    "\<forall>p<pcIdx. components ! p = replicate n (Num 0)"
  shows "eigenvector covariance n components pcIdx = replicate n (Num 0)"
proof -
  let ?v0 = "(replicate n (Num 0))[pcIdx mod n := Num 1]"
  let ?f = "power_round covariance n components pcIdx"
  have v0: "length ?v0 = n" "\<forall>i<n. is_f32 (?v0 ! i)"
    by (simp_all add: nth_list_update)
  have o: "orthogonalize components pcIdx n ?v0 = ?v0"
    by (rule orthogonalize_zero) (use v0 assms(2) in simp_all)
  have fin: "\<forall>i<n. finite_num (?v0 ! i)" by (simp add: nth_list_update)
  have first: "?f ?v0 = replicate n (Num 0)"
    by (rule power_round_zero[OF assms(1) v0(1) fin assms(2)])
  have fixp: "?f (replicate n (Num 0)) = replicate n (Num 0)"
    by (rule power_round_zero[OF assms(1) _ _ assms(2)]) simp_all
  have "(?f ^^ 10) ?v0 = (?f ^^ Suc 9) ?v0" by simp
  also have "\<dots> = (?f ^^ 9) (?f ?v0)" by (simp only: funpow_Suc_right o_apply)
  also have "\<dots> = replicate n (Num 0)"
    using funpow_fixed[of ?f "replicate n (Num 0)" 9, OF fixp] by (simp only: first)
  finally show ?thesis by (simp only: eigenvector_def o)
qed

lemma computeTopEigenvectors_zero:
  assumes "\<forall>i<n * n. covariance ! i = Num 0"
  shows "computeTopEigenvectors covariance n 3
         = [replicate n (Num 0), replicate n (Num 0), replicate n (Num 0)]"
proof -
  let ?z = "replicate n (Num 0)"
  have e0: "eigenvector covariance n [] 0 = ?z"
    by (rule eigenvector_zero[OF assms]) simp
  have e1: "eigenvector covariance n [?z] (Suc 0) = ?z"
    by (rule eigenvector_zero[OF assms]) simp
  have e2: "eigenvector covariance n [?z, ?z] 2 = ?z"
    by (rule eigenvector_zero[OF assms]) (simp add: nth_Cons')
  have "[0..<3] = [0, 1, 2]" by (simp add: upt_rec)
  then show ?thesis by (simp add: computeTopEigenvectors_def e0 e1 e2)
qed

lemma upt_1: "[0..<1] = [0]" and upt_2: "[0..<2] = [0, 1]" and upt_3: "[0..<3] = [0, 1, 2]"
  and upt_4: "[0..<4] = [0, 1, 2, 3]"
  by (simp_all add: upt_rec)

lemma pca_means_single:
  assumes "\<forall>x\<in>set frame. is_f32 x"
  shows "pca_means frame (Suc 0) (length frame) = frame"
proof (rule nth_equalityI)
  show "length (pca_means frame (Suc 0) (length frame)) = length frame" by (simp add: pca_means_def)
next
  fix f assume "f < length (pca_means frame (Suc 0) (length frame))"
  then have f: "f < length frame" by (simp add: pca_means_def)
  then obtain r where r: "frame ! f = Num r" "fround (Num r) = Num r"
    using assms is_f32_Num[of "frame ! f"] by auto
  show "pca_means frame (Suc 0) (length frame) ! f = frame ! f"
    using f r by (simp add: pca_means_nth elem_def)
qed

lemma pca_centered_single:
  assumes "\<forall>x\<in>set frame. is_f32 x"
  shows "pca_centered [frame] = replicate (length frame) (Num 0)"
proof (rule nth_equalityI)
  show "length (pca_centered [frame]) = length (replicate (length frame) (Num 0))"
    by (simp add: length_pca_centered)
next
  fix i assume "i < length (pca_centered [frame])"
  then have i: "i < length frame" by (simp add: length_pca_centered)
  then have i': "i < length [frame] * length ([frame] ! 0)" by simp
  obtain r where r: "frame ! i = Num r"
    using assms is_f32_Num[of "frame ! i"] i by auto
  have "pca_centered [frame] ! i = Num 0"
    using i r by (simp add: pca_centered_nth[OF i'] elem_def pca_means_single[OF assms])
  then show "pca_centered [frame] ! i = replicate (length frame) (Num 0) ! i"
    using i by simp
qed

lemma pca_covariance_zero:
  assumes "\<forall>i<T * F. m ! i = Num 0"
  shows "pca_covariance m T F = replicate (F * F) (Num 0)"
proof (rule nth_equalityI)
  show "length (pca_covariance m T F) = length (replicate (F * F) (Num 0))"
    by (simp add: pca_covariance_def)
next
  fix idx assume "idx < length (pca_covariance m T F)"
  then have idx: "idx < F * F" by (simp add: pca_covariance_def)
  then have F: "0 < F" by (cases F) simp_all
  have i: "idx div F < F" using idx F by (simp add: less_mult_imp_div_less)
  have j: "idx mod F < F" using F by simp
  have "foldl (\<lambda>sum t. jadd sum (jmul (m ! (t * F + idx div F)) (m ! (t * F + idx mod F))))
              (Num 0) [0..<T] = Num 0"
  proof (rule foldl_jadd_zero[where f="\<lambda>t. jmul (m ! (t * F + idx div F)) (m ! (t * F + idx mod F))"])
    fix t assume t: "t < T"
    show "jmul (m ! (t * F + idx div F)) (m ! (t * F + idx mod F)) = Num 0"
      using assms index_bound2[OF t i] index_bound2[OF t j] by simp
  qed
  then show "pca_covariance m T F ! idx = replicate (F * F) (Num 0) ! idx"
    using idx by (simp add: pca_covariance_def Let_def pca_scale_Num)
qed

lemma pca_projected_single:
  assumes "\<forall>x\<in>set frame. is_f32 x"
  shows "pca_projected [frame] = [[Num 0, Num 0, Num 0]]"
proof -
  let ?F = "length frame"
  let ?z = "replicate ?F (Num 0)"
  have c: "pca_centered [frame] = ?z" by (rule pca_centered_single[OF assms])
  have cov: "pca_covariance ?z (Suc 0) ?F = replicate (?F * ?F) (Num 0)"
    by (rule pca_covariance_zero) simp
  have comps: "computeTopEigenvectors (replicate (?F * ?F) (Num 0)) ?F 3 = [?z, ?z, ?z]"
    by (rule computeTopEigenvectors_zero) simp
  have entry: "foldl (\<lambda>sum f. jadd sum (jmul (?z ! f) ([?z, ?z, ?z] ! pc ! f))) (Num 0) [0..<?F]
               = Num 0" if pc: "pc < 3" for pc
  proof (rule foldl_jadd_zero[where f="\<lambda>f. jmul (?z ! f) ([?z, ?z, ?z] ! pc ! f)"])
    fix f assume f: "f < ?F"
    consider "pc = 0" | "pc = 1" | "pc = 2" using pc by linarith
    then show "jmul (?z ! f) ([?z, ?z, ?z] ! pc ! f) = Num 0"
      using f by cases simp_all
  qed
  have "pca_projected [frame]
        = [map (\<lambda>pc. foldl (\<lambda>sum f. jadd sum (jmul (?z ! f) ([?z, ?z, ?z] ! pc ! f)))
                             (Num 0) [0..<?F]) [0..<3]]"
    by (simp add: pca_projected_def Let_def c cov comps)
  also have "\<dots> = [[Num 0, Num 0, Num 0]]"
    unfolding upt_3 using entry[of 0] entry[of 1] entry[of 2] by simp
  finally show ?thesis .
qed

text \<open>
  The standard deviation of a single value is zero or, for a value that is not finite,
  NaN: a single point is never normalised.
\<close>

lemma axis_std_single: "\<not> jgt (axis_std P pc 1) (Num (1 / 10 ^ 6))"
  by (cases "P ! 0 ! pc")
     (simp_all add: axis_std_def axis_mean_def Let_def upt_1 jsub_def jgt_def jinf_def)

lemma normalize_axis_single: "normalize_axis (Suc 0) P pc = P"
  using axis_std_single[of P pc] by (simp add: normalize_axis_def Let_def)

lemma computePCA3D_single: "computePCA3D [frame] = pca_projected [frame]"
  by (simp add: computePCA3D_unfold normalize_axis_single)

lemma pca_scale_1: "pca_scale 1 = Num 1"
  by (simp add: pca_scale_def)

lemma fround_16777216: "fround (Num 16777216) = Num 16777216"
  using fround_repr[of 8388608 1] by simp

lemma ce_means:
  "T = 1 \<Longrightarrow> F = 2 \<Longrightarrow> pca_means [Num 16777217, Num 0] T F = [Num 16777216, Num 0]"
  by (simp add: pca_means_def elem_def fround_16777217 fround_16777216 upt_1 upt_2)

lemma ce_centered: "pca_centered [[Num 16777217, Num 0]] = [Num 1, Num 0]"
  by (simp add: pca_centered_def Let_def pca_center_def ce_means elem_def)

lemma ce_cov:
  "T = 1 \<Longrightarrow> F = 2 \<Longrightarrow> pca_covariance [Num 1, Num 0] T F = [Num 1, Num 0, Num 0, Num 0]"
  by (simp add: pca_covariance_def Let_def pca_scale_def upt_1 upt_4)

lemma ce_round0:
  "power_round [Num 1, Num 0, Num 0, Num 0] 2 [] 0 [Num 1, Num 0] = [Num 1, Num 0]"
  by (simp add: power_round_def Let_def orthogonalize_def upt_2)

lemma ce_e0:
  "eigenvector [Num 1, Num 0, Num 0, Num 0] 2 [] 0 = [Num 1, Num 0]"
proof -
  have "(replicate 2 (Num 0))[0 mod 2 := Num 1] = [Num 1, Num 0]"
    by (simp add: numeral_2_eq_2)
  then show ?thesis
    using funpow_fixed[of "power_round [Num 1, Num 0, Num 0, Num 0] 2 [] 0"
      "[Num 1, Num 0]" 10, OF ce_round0]
    by (simp only: eigenvector_def) (simp add: orthogonalize_def)
qed

lemma ce_round1:
  "power_round [Num 1, Num 0, Num 0, Num 0] 2 [[Num 1, Num 0]] 1 [Num 0, v]
   = [Num 0, Num 0]" if "v = Num 0 \<or> v = Num 1"
  using that by (auto simp: power_round_def Let_def orthogonalize_def dot_product_def upt_2 upt_1)

lemma ce_e1:
  "eigenvector [Num 1, Num 0, Num 0, Num 0] 2 [[Num 1, Num 0]] 1 = [Num 0, Num 0]"
proof -
  let ?f = "power_round [Num 1, Num 0, Num 0, Num 0] 2 [[Num 1, Num 0]] 1"
  have v: "(replicate 2 (Num 0))[1 mod 2 := Num 1] = [Num 0, Num 1]"
    by (simp add: numeral_2_eq_2)
  have o: "orthogonalize [[Num 1, Num 0]] 1 2 [Num 0, Num 1] = [Num 0, Num 1]"
    by (simp add: orthogonalize_def dot_product_def upt_1 upt_2)
  have r1: "?f [Num 0, Num 1] = [Num 0, Num 0]" by (rule ce_round1) simp
  have r0: "?f [Num 0, Num 0] = [Num 0, Num 0]" by (rule ce_round1) simp
  have "(?f ^^ 10) [Num 0, Num 1] = (?f ^^ Suc 9) [Num 0, Num 1]" by simp
  also have "\<dots> = (?f ^^ 9) (?f [Num 0, Num 1])" by (simp only: funpow_Suc_right o_apply)
  also have "\<dots> = [Num 0, Num 0]"
    unfolding r1 by (rule funpow_fixed[of ?f "[Num 0, Num 0]" 9, OF r0])
  finally show ?thesis by (simp only: eigenvector_def v o)
qed

lemma ce_round2:
  "power_round [Num 1, Num 0, Num 0, Num 0] 2 [[Num 1, Num 0], [Num 0, Num 0]] 2 [Num 0, Num 0]
   = [Num 0, Num 0]"
  by (simp add: power_round_def Let_def orthogonalize_def dot_product_def upt_2)

lemma ce_e2:
  "eigenvector [Num 1, Num 0, Num 0, Num 0] 2 [[Num 1, Num 0], [Num 0, Num 0]] 2
   = [Num 0, Num 0]"
proof -
  let ?f = "power_round [Num 1, Num 0, Num 0, Num 0] 2 [[Num 1, Num 0], [Num 0, Num 0]] 2"
  have v: "(replicate 2 (Num 0))[2 mod 2 := Num 1] = [Num 1, Num 0]"
    by (simp add: numeral_2_eq_2)
  have o: "orthogonalize [[Num 1, Num 0], [Num 0, Num 0]] 2 2 [Num 1, Num 0] = [Num 0, Num 0]"
    by (simp add: orthogonalize_def dot_product_def upt_2 Let_def)
  show ?thesis
    unfolding eigenvector_def v o
    by (rule funpow_fixed[of ?f "[Num 0, Num 0]" 10, OF ce_round2])
qed

lemma ce_components:
  "n = 2 \<Longrightarrow> computeTopEigenvectors [Num 1, Num 0, Num 0, Num 0] n 3
   = [[Num 1, Num 0], [Num 0, Num 0], [Num 0, Num 0]]"
  using ce_e1 by (simp add: computeTopEigenvectors_def upt_3 ce_e0 ce_e2)

lemma ce_projected: "pca_projected [[Num 16777217, Num 0]] = [[Num 1, Num 0, Num 0]]"
  by (simp add: pca_projected_def Let_def ce_centered ce_cov ce_components upt_3)

lemma w_means: "T = 2 \<Longrightarrow> F = 1 \<Longrightarrow> pca_means [Num 1, Num (- 1)] T F = [Num 0]"
  by (simp add: pca_means_def elem_def upt_1 upt_2)

lemma w_centered: "pca_centered [[Num 1], [Num (- 1)]] = [Num 1, Num (- 1)]"
  by (simp add: pca_centered_def Let_def pca_center_def w_means elem_def)

lemma w_cov: "T = 2 \<Longrightarrow> F = 1 \<Longrightarrow> pca_covariance [Num 1, Num (- 1)] T F = [Num 2]"
  by (simp add: pca_covariance_def Let_def pca_scale_def upt_1 upt_2)

lemma w_round0: "power_round [Num 2] 1 [] 0 [Num 1] = [Num 1]"
  by (simp add: power_round_def Let_def orthogonalize_def upt_1)

lemma w_e0: "eigenvector [Num 2] 1 [] 0 = [Num 1]"
  using funpow_fixed[of "power_round [Num 2] 1 [] 0" "[Num 1]" 10, OF w_round0]
  by (simp only: eigenvector_def) (simp add: orthogonalize_def)

lemma w_round1: "power_round [Num 2] 1 [[Num 1]] 1 [Num 0] = [Num 0]"
  by (simp add: power_round_def Let_def orthogonalize_def dot_product_def upt_1)

lemma w_e1: "eigenvector [Num 2] 1 [[Num 1]] 1 = [Num 0]"
proof -
  have o: "orthogonalize [[Num 1]] 1 1 ((replicate 1 (Num 0))[1 mod 1 := Num 1]) = [Num 0]"
    by (simp add: orthogonalize_def dot_product_def upt_1 Let_def)
  show ?thesis
    unfolding eigenvector_def o
    by (rule funpow_fixed[of "power_round [Num 2] 1 [[Num 1]] 1" "[Num 0]" 10, OF w_round1])
qed

lemma w_round2: "power_round [Num 2] 1 [[Num 1], [Num 0]] 2 [Num 0] = [Num 0]"
  by (simp add: power_round_def Let_def orthogonalize_def dot_product_def upt_1 upt_2)

lemma w_e2: "eigenvector [Num 2] 1 [[Num 1], [Num 0]] 2 = [Num 0]"
proof -
  have o: "orthogonalize [[Num 1], [Num 0]] 2 1 ((replicate 1 (Num 0))[2 mod 1 := Num 1]) = [Num 0]"
    by (simp add: orthogonalize_def dot_product_def upt_1 upt_2 Let_def)
  show ?thesis
    unfolding eigenvector_def o
    by (rule funpow_fixed[of "power_round [Num 2] 1 [[Num 1], [Num 0]] 2" "[Num 0]" 10, OF w_round2])
qed

lemma w_components:
  "n = 1 \<Longrightarrow> computeTopEigenvectors [Num 2] n 3 = [[Num 1], [Num 0], [Num 0]]"
  using w_e0 w_e1 w_e2 by (simp add: computeTopEigenvectors_def upt_3)

lemma w_projected:
  "pca_projected [[Num 1], [Num (- 1)]] = [[Num 1, Num 0, Num 0], [Num (- 1), Num 0, Num 0]]"
  by (simp add: pca_projected_def Let_def w_centered w_cov w_components upt_3 upt_2 upt_1)

lemma w_stats: "mean_of [1, - 1] = 0" "std_of [1, - 1] = 1" "zscore [1, - 1] = [1, - 1]"
proof -
  show m: "mean_of [1, - 1] = 0" by (simp add: mean_of_def numeral_2_eq_2)
  show s: "std_of [1, - 1] = 1" by (simp add: std_of_def m numeral_2_eq_2)
  show "zscore [1, - 1] = [1, - 1]" by (simp add: zscore_def m s)
qed

text \<open>Mean and standard deviation as the code computes them, on a finite axis.\<close>

lemma column_mean:
  assumes "xs \<noteq> []"
  shows "jdiv (foldl (\<lambda>mean t. jadd mean (map Num xs ! t)) (Num 0) [0..<length xs])
              (Num (real (length xs))) = Num (mean_of xs)"
proof -
  have T: "real (length xs) \<noteq> 0" using assms by simp
  have m: "foldl (\<lambda>mean t. jadd mean (map Num xs ! t)) (Num 0) [0..<length xs]
           = Num (\<Sum>i<length xs. xs ! i)"
    by (rule foldl_jadd_Num0[where f="\<lambda>t. map Num xs ! t"]) simp
  show ?thesis using T by (simp add: m mean_of_def)
qed

lemma column_std:
  assumes "xs \<noteq> []"
  shows "jsqrt (jdiv (foldl (\<lambda>variance t. jadd variance
                               (jmul (jsub (map Num xs ! t) (Num (mean_of xs)))
                                     (jsub (map Num xs ! t) (Num (mean_of xs)))))
                            (Num 0) [0..<length xs])
                     (Num (real (length xs)))) = Num (std_of xs)"
proof -
  let ?T = "length xs"
  have T: "real ?T \<noteq> 0" using assms by simp
  let ?V = "\<Sum>i<?T. (xs ! i - mean_of xs) * (xs ! i - mean_of xs)"
  have v: "foldl (\<lambda>variance t. jadd variance (jmul (jsub (map Num xs ! t) (Num (mean_of xs)))
                                                   (jsub (map Num xs ! t) (Num (mean_of xs)))))
                 (Num 0) [0..<?T] = Num ?V"
    by (rule foldl_jadd_Num0[where f="\<lambda>t. jmul (jsub (map Num xs ! t) (Num (mean_of xs)))
                                               (jsub (map Num xs ! t) (Num (mean_of xs)))"]) simp
  have V0: "0 \<le> ?V" by (rule sum_nonneg) simp
  then have "\<not> ?V / real ?T < 0" by (simp add: not_less divide_nonneg_nonneg)
  then show ?thesis using T by (simp add: v std_of_def)
qed

lemma axis_std_finite:
  assumes "axis pc P = map Num xs" "xs \<noteq> []"
  shows "axis_std P pc (length P) = Num (std_of xs)"
proof -
  have len: "length P = length xs" using assms(1) by (metis length_axis length_map)
  have m: "axis_mean P pc (length P) = Num (mean_of xs)"
    using column_mean[OF assms(2)] by (simp add: axis_mean_col[OF len] assms(1) len)
  show ?thesis
    using column_std[OF assms(2)] m by (simp add: axis_std_col[OF len] assms(1) len)
qed

text \<open>An axis with an entry that is not finite has the standard deviation NaN.\<close>

lemma fin_jadd_iff: "finite_num (jadd a b) \<longleftrightarrow> finite_num a \<and> finite_num b"
  by (cases a; cases b) simp_all

lemma jadd_NaN [simp]: "jadd a NaN = NaN" "jadd NaN a = NaN"
  by (cases a; simp)+

lemma foldl_jadd_nonfinite:
  assumes "t0 < T" "\<not> finite_num (g t0)"
  shows "\<not> finite_num (foldl (\<lambda>s t. jadd s (g t)) a [0..<T])"
  using assms(1)
proof (induction T)
  case 0
  then show ?case by simp
next
  case (Suc T)
  show ?case
  proof (cases "t0 = T")
    case True
    then show ?thesis using assms(2) by (simp add: fin_jadd_iff)
  next
    case False
    then have "t0 < T" using Suc.prems by simp
    then show ?thesis using Suc.IH by (simp add: fin_jadd_iff)
  qed
qed

lemma foldl_jadd_NaN:
  assumes "t0 < T" "g t0 = NaN"
  shows "foldl (\<lambda>s t. jadd s (g t)) a [0..<T] = NaN"
  using assms(1)
proof (induction T)
  case 0
  then show ?case by simp
next
  case (Suc T)
  show ?case
  proof (cases "t0 = T")
    case True
    then show ?thesis using assms(2) by simp
  next
    case False
    then have "t0 < T" using Suc.prems by simp
    then show ?thesis using Suc.IH by simp
  qed
qed

lemma jadd_PInf: "jadd a b = PInf \<Longrightarrow> a = PInf \<or> b = PInf"
  by (cases a; cases b) simp_all

lemma jadd_NInf: "jadd a b = NInf \<Longrightarrow> a = NInf \<or> b = NInf"
  by (cases a; cases b) simp_all

lemma foldl_jadd_PInf:
  "foldl (\<lambda>s t. jadd s (g t)) (Num 0) [0..<T] = PInf \<Longrightarrow> \<exists>t<T. g t = PInf"
proof (induction T)
  case 0
  then show ?case by simp
next
  case (Suc T)
  then have "foldl (\<lambda>s t. jadd s (g t)) (Num 0) [0..<T] = PInf \<or> g T = PInf"
    using jadd_PInf by simp
  then show ?case using Suc.IH less_Suc_eq by auto
qed

lemma foldl_jadd_NInf:
  "foldl (\<lambda>s t. jadd s (g t)) (Num 0) [0..<T] = NInf \<Longrightarrow> \<exists>t<T. g t = NInf"
proof (induction T)
  case 0
  then show ?case by simp
next
  case (Suc T)
  then have "foldl (\<lambda>s t. jadd s (g t)) (Num 0) [0..<T] = NInf \<or> g T = NInf"
    using jadd_NInf by simp
  then show ?case using Suc.IH less_Suc_eq by auto
qed

lemma normalize_column_nonfinite:
  assumes "t0 < T" "\<not> finite_num (col ! t0)"
  shows "normalize_column T col = col"
proof -
  let ?S = "foldl (\<lambda>mean t. jadd mean (col ! t)) (Num 0) [0..<T]"
  let ?M = "jdiv ?S (Num (of_nat T))"
  let ?g = "\<lambda>t. jmul (jsub (col ! t) ?M) (jsub (col ! t) ?M)"
  have S: "\<not> finite_num ?S" by (rule foldl_jadd_nonfinite[where g="\<lambda>t. col ! t", OF assms])
  have "\<exists>t1<T. ?g t1 = NaN"
  proof (cases ?S)
    case (Num r)
    then show ?thesis using S by simp
  next
    case PInf
    then obtain t1 where "t1 < T" "col ! t1 = PInf" using foldl_jadd_PInf[of "\<lambda>t. col ! t" T] by auto
    then show ?thesis using PInf by (auto simp: jsub_def intro!: exI[of _ t1])
  next
    case NInf
    then obtain t1 where "t1 < T" "col ! t1 = NInf" using foldl_jadd_NInf[of "\<lambda>t. col ! t" T] by auto
    then show ?thesis using NInf by (auto simp: jsub_def intro!: exI[of _ t1])
  next
    case NaN
    then show ?thesis using assms(1) by (auto simp: jsub_def intro!: exI[of _ t0])
  qed
  then obtain t1 where "t1 < T" "?g t1 = NaN" by blast
  then have "foldl (\<lambda>variance t. jadd variance (?g t)) (Num 0) [0..<T] = NaN"
    by (rule foldl_jadd_NaN)
  then show ?thesis by (simp add: normalize_column_def Let_def jgt_def)
qed

text \<open>
  Claim C2. For at least one frame and each of the three output axes. When the axis as
  projected is a sequence \<open>xs\<close> of finite numbers, the standard deviation that the code
  computes of it is \<open>std_of xs\<close>; if it exceeds \<open>1e-6\<close> the output axis is the z-score of
  \<open>xs\<close>, whose mean is 0 and whose standard deviation is 1, and otherwise the output
  axis is \<open>xs\<close> as projected. When the axis as projected has an entry that is not
  finite, it is returned as projected.
\<close>

theorem computePCA3D_zscore:
  assumes "mfcc \<noteq> []" "pc < 3"
  shows "(\<forall>xs. axis pc (pl_projected (computePCA3D_locals mfcc)) = map Num xs \<longrightarrow>
            length xs = length mfcc
          \<and> axis_std (pl_projected (computePCA3D_locals mfcc)) pc
               (pl_timeSteps (computePCA3D_locals mfcc)) = Num (std_of xs)
          \<and> (1 / 10 ^ 6 < std_of xs \<longrightarrow>
                axis pc (computePCA3D mfcc) = map Num (zscore xs)
                \<and> mean_of (zscore xs) = 0 \<and> std_of (zscore xs) = 1)
          \<and> (std_of xs \<le> 1 / 10 ^ 6 \<longrightarrow> axis pc (computePCA3D mfcc) = map Num xs))
       \<and> ((\<exists>t<length mfcc. \<not> finite_num (pl_projected (computePCA3D_locals mfcc) ! t ! pc))
            \<longrightarrow> axis pc (computePCA3D mfcc) = axis pc (pl_projected (computePCA3D_locals mfcc)))"
proof (intro conjI allI impI)
  fix xs assume ax: "axis pc (pl_projected (computePCA3D_locals mfcc)) = map Num xs"
  then have ax': "axis pc (pca_projected mfcc) = map Num xs" by simp
  then have "length (axis pc (pca_projected mfcc)) = length xs" by simp
  then show len: "length xs = length mfcc" by simp
  then have ne: "xs \<noteq> []" using assms(1) by auto
  show "axis_std (pl_projected (computePCA3D_locals mfcc)) pc
          (pl_timeSteps (computePCA3D_locals mfcc)) = Num (std_of xs)"
    using axis_std_finite[OF ax' ne] by simp
  have col: "axis pc (computePCA3D mfcc)
             = (if 1 / 10 ^ 6 < std_of xs then map Num (zscore xs) else map Num xs)"
    using computePCA3D_axis[OF assms] normalize_column_finite[OF ne] by (simp add: ax' len)
  {
    assume big: "1 / 10 ^ 6 < std_of xs"
    then have pos: "0 < std_of xs" by (smt (verit) divide_pos_pos zero_less_power zero_less_one)
    show "axis pc (computePCA3D mfcc) = map Num (zscore xs)" using col big by simp
    show "mean_of (zscore xs) = 0" by (rule zscore_stats(1)[OF ne pos])
    show "std_of (zscore xs) = 1" by (rule zscore_stats(2)[OF ne pos])
  }
  {
    assume "std_of xs \<le> 1 / 10 ^ 6"
    then show "axis pc (computePCA3D mfcc) = map Num xs" using col by simp
  }
next
  assume "\<exists>t<length mfcc. \<not> finite_num (pl_projected (computePCA3D_locals mfcc) ! t ! pc)"
  then obtain t where t: "t < length mfcc" "\<not> finite_num (pca_projected mfcc ! t ! pc)" by auto
  then have "\<not> finite_num (axis pc (pca_projected mfcc) ! t)" by (simp add: axis_nth)
  from normalize_column_nonfinite[OF t(1) this] computePCA3D_axis[OF assms]
  show "axis pc (computePCA3D mfcc) = axis pc (pl_projected (computePCA3D_locals mfcc))" by simp
qed

theorem computePCA3D_zscore_witness:
  "[[Num 1], [Num (- 1)]] \<noteq> [] \<and> (0::nat) < 3
   \<and> axis 0 (pl_projected (computePCA3D_locals [[Num 1], [Num (- 1)]])) = map Num [1, - 1]
   \<and> 1 / 10 ^ 6 < std_of [1, - 1]
   \<and> axis 0 (computePCA3D [[Num 1], [Num (- 1)]]) = [Num 1, Num (- 1)]"
proof -
  have ne: "[[Num 1], [Num (- 1)]] \<noteq> []" and pc: "(0::nat) < 3" by simp_all
  have ax: "axis 0 (pl_projected (computePCA3D_locals [[Num 1], [Num (- 1)]])) = map Num [1, - 1]"
    by (simp add: w_projected axis_def)
  have big: "1 / 10 ^ 6 < std_of [1, - 1]" by (simp add: w_stats)
  from computePCA3D_zscore[OF ne pc] ax big
  have "axis 0 (computePCA3D [[Num 1], [Num (- 1)]]) = map Num (zscore [1, - 1])" by blast
  then have "axis 0 (computePCA3D [[Num 1], [Num (- 1)]]) = [Num 1, Num (- 1)]"
    by (simp add: w_stats)
  with ne pc ax big show ?thesis by blast
qed

text \<open>
  Claim C9, as the code has it. For a matrix of a single frame, whatever its entries,
  \<open>computePCA3D\<close> returns exactly one point of three components; the number of frames is
  1 and the covariance scale is \<open>1 / max 1 (1 - 1) = 1\<close>; on every axis the standard
  deviation that the code computes is not above \<open>1e-6\<close>, so that no axis is normalised
  and the point is returned as projected. When the entries of the frame are finite
  single-precision numbers, as the entries of the frames of \<open>computeMFCC\<close> are, the means
  are the frame itself, the centred frame and the covariance matrix are zero, and the
  point is the zero point.
\<close>

theorem computePCA3D_single_frame:
  "length (computePCA3D [frame]) = 1
   \<and> length (computePCA3D [frame] ! 0) = 3
   \<and> pl_timeSteps (computePCA3D_locals [frame]) = 1
   \<and> pl_scale (computePCA3D_locals [frame]) = Num 1
   \<and> (\<forall>pc<3. \<not> jgt (axis_std (pl_projected (computePCA3D_locals [frame])) pc
                          (pl_timeSteps (computePCA3D_locals [frame])))
                     (Num (1 / 10 ^ 6)))
   \<and> computePCA3D [frame] = pl_projected (computePCA3D_locals [frame])
   \<and> ((\<forall>x\<in>set frame. is_f32 x) \<longrightarrow>
         pl_means (computePCA3D_locals [frame]) = frame
       \<and> pl_matrix (computePCA3D_locals [frame]) = replicate (length frame) (Num 0)
       \<and> pl_covariance (computePCA3D_locals [frame])
           = replicate (length frame * length frame) (Num 0)
       \<and> computePCA3D [frame] = [[Num 0, Num 0, Num 0]])"
proof -
  have shape: "length (computePCA3D [frame]) = 1 \<and> length (computePCA3D [frame] ! 0) = 3"
    using computePCA3D_shape[of "[frame]"] by simp
  have std: "\<forall>pc<3. \<not> jgt (axis_std (pl_projected (computePCA3D_locals [frame])) pc
                          (pl_timeSteps (computePCA3D_locals [frame])))
                     (Num (1 / 10 ^ 6))"
    using axis_std_single by simp
  have f32: "pl_means (computePCA3D_locals [frame]) = frame
       \<and> pl_matrix (computePCA3D_locals [frame]) = replicate (length frame) (Num 0)
       \<and> pl_covariance (computePCA3D_locals [frame])
           = replicate (length frame * length frame) (Num 0)
       \<and> computePCA3D [frame] = [[Num 0, Num 0, Num 0]]" if a: "\<forall>x\<in>set frame. is_f32 x"
  proof -
    have "pca_covariance (replicate (length frame) (Num 0)) (Suc 0) (length frame)
          = replicate (length frame * length frame) (Num 0)"
      by (rule pca_covariance_zero) simp
    then show ?thesis
      by (simp add: pca_means_single[OF a] pca_centered_single[OF a] computePCA3D_single
          pca_projected_single[OF a])
  qed
  have ts: "pl_timeSteps (computePCA3D_locals [frame]) = 1" by simp
  have sc: "pl_scale (computePCA3D_locals [frame]) = Num 1" by (simp add: pca_scale_def)
  have eq: "computePCA3D [frame] = pl_projected (computePCA3D_locals [frame])"
    by (simp add: computePCA3D_single)
  show ?thesis
    using shape ts sc std eq f32 by blast
qed

theorem computePCA3D_single_frame_witness:
  "is_f32 (Num 1) \<and> is_f32 (Num 2)
   \<and> computePCA3D [[Num 1, Num 2]] = [[Num 0, Num 0, Num 0]]
   \<and> pl_matrix (computePCA3D_locals [[Num 1, Num 2]]) = [Num 0, Num 0]
   \<and> length (computePCA3D [[NaN, PInf]]) = 1"
proof -
  have b: "is_f32 (Num 1)" "is_f32 (Num 2)" by (simp_all add: is_f32_def)
  then have a: "\<forall>x\<in>set [Num 1, Num 2]. is_f32 x" by simp
  from computePCA3D_single_frame[of "[Num 1, Num 2]"] a
  have "computePCA3D [[Num 1, Num 2]] = [[Num 0, Num 0, Num 0]]"
    "pl_matrix (computePCA3D_locals [[Num 1, Num 2]]) = replicate (length [Num 1, Num 2]) (Num 0)"
    by blast+
  moreover have "length (computePCA3D [[NaN, PInf]]) = 1"
    using computePCA3D_single_frame[of "[NaN, PInf]"] by blast
  ultimately show ?thesis using b by (simp add: numeral_2_eq_2)
qed

text \<open>
  Claim C9, as stated, fails for a frame with an entry that is no single-precision
  number: the mean of the single entry \<open>16777217\<close> is stored as \<open>16777216\<close>, the frame
  is centred to \<open>[1, 0]\<close> and not to the zero vector, and the point is \<open>[1, 0, 0]\<close>.
\<close>

theorem computePCA3D_single_frame_not_centred:
  "pl_means (computePCA3D_locals [[Num 16777217, Num 0]]) = [Num 16777216, Num 0]
   \<and> pl_matrix (computePCA3D_locals [[Num 16777217, Num 0]]) = [Num 1, Num 0]
   \<and> computePCA3D [[Num 16777217, Num 0]] = [[Num 1, Num 0, Num 0]]"
  by (simp add: ce_means ce_centered computePCA3D_single ce_projected)

end
